theory Spec2Isabelle
  imports Complex_Main "HOL-Library.Sublist"
begin

section \<open>Delta Migration API: the background sync job of \<^verbatim>\<open>main.py\<close>\<close>

text \<open>
  A shallow embedding of \<^verbatim>\<open>run_sync_background\<close> and \<^verbatim>\<open>sync_folders\<close>.
  Python \<^verbatim>\<open>str\<close> values are modelled as \<^typ>\<open>string\<close>: a \<^typ>\<open>char\<close> stands for
  one code point below 256, so \<^const>\<open>length\<close> counts what Python's \<^verbatim>\<open>len\<close> counts
  for such texts. Python \<^verbatim>\<open>int\<close> is \<^typ>\<open>int\<close>, or \<^typ>\<open>nat\<close> for the counters
  that start at 0 and are only incremented. Everything the job asks of the outside
  (file system, clock, the rsync child process) is an input of the model, collected in
  the record \<open>world\<close>; an exception is a value of the type \<open>exn\<close>. An exception
  that does not derive from \<^verbatim>\<open>Exception\<close> can come from the calls whose outcome the
  record gives as an \<open>exn\<close>.
\<close>

subsection \<open>Python string operations used by the job\<close>

text \<open>\<^verbatim>\<open>str.isspace\<close> on one code point below 256, the set \<^verbatim>\<open>str.strip()\<close> removes.\<close>

definition is_space :: "char \<Rightarrow> bool" where
  "is_space c = (of_char c \<in> {9, 10, 11, 12, 13, 28, 29, 30, 31, 32, 133, 160 :: nat})"

text \<open>\<^verbatim>\<open>s.strip()\<close>: leading and trailing white space removed.\<close>

definition strip :: "string \<Rightarrow> string" where
  "strip s = rev (dropWhile is_space (rev (dropWhile is_space s)))"

text \<open>\<^verbatim>\<open>s.startswith(' ')\<close> and \<^verbatim>\<open>s.endswith('/')\<close>.\<close>

definition startswith :: "string \<Rightarrow> string \<Rightarrow> bool" where
  "startswith s p = prefix p s"

definition endswith :: "string \<Rightarrow> string \<Rightarrow> bool" where
  "endswith s p = suffix p s"

text \<open>\<^verbatim>\<open>needle in hay\<close> for strings: \<open>needle\<close> occurs as a contiguous part.\<close>

fun contains :: "string \<Rightarrow> string \<Rightarrow> bool" where
  "contains needle [] = (needle = [])"
| "contains needle (c # cs) = (prefix needle (c # cs) \<or> contains needle cs)"

text \<open>
  \<^verbatim>\<open>s.lower()\<close>, one code point at a time: below 256 the letters with a lower-case
  form are A to Z and 0xC0 to 0xDE without the multiplication sign 0xD7, and the
  lower-case form is 32 code points further.
\<close>

definition lower_char :: "char \<Rightarrow> char" where
  "lower_char c =
     (let n = of_char c :: nat
      in if (65 \<le> n \<and> n \<le> 90) \<or> (192 \<le> n \<and> n \<le> 222 \<and> n \<noteq> 215)
         then char_of (n + 32) else c)"

definition lower :: "string \<Rightarrow> string" where
  "lower s = map lower_char s"

text \<open>\<^verbatim>\<open>s.split(sep)\<close> for a one-character separator: never an empty list.\<close>

fun split_on :: "char \<Rightarrow> string \<Rightarrow> string list" where
  "split_on sep [] = [[]]"
| "split_on sep (c # cs) =
     (if c = sep then [] # split_on sep cs
      else (case split_on sep cs of
              seg # segs \<Rightarrow> (c # seg) # segs
            | [] \<Rightarrow> [[c]]))"

text \<open>\<^verbatim>\<open>str(n)\<close> for an integer, as the f-string of the exit code formats it.\<close>

definition digit_char :: "nat \<Rightarrow> char" where
  "digit_char d = ''0123456789'' ! d"

fun str_nat :: "nat \<Rightarrow> string" where
  "str_nat n = (if n < 10 then [digit_char n] else str_nat (n div 10) @ [digit_char (n mod 10)])"

definition str_int :: "int \<Rightarrow> string" where
  "str_int i = (if i < 0 then CHR ''-'' # str_nat (nat (- i)) else str_nat (nat i))"

text \<open>
  \<^verbatim>\<open>int(s)\<close> in base 10 for a text that \<^verbatim>\<open>strip()\<close> has already cleaned (the job
  never passes another): an optional sign, then decimal digits, single underscores
  allowed between digits. \<open>None\<close> is Python's \<^verbatim>\<open>ValueError\<close>. The optional limit on the
  number of digits (\<^verbatim>\<open>sys.set_int_max_str_digits\<close>) is taken as switched off.
\<close>

definition is_digit :: "char \<Rightarrow> bool" where
  "is_digit c = (48 \<le> (of_char c :: nat) \<and> (of_char c :: nat) \<le> 57)"

definition digit_value :: "char \<Rightarrow> int" where
  "digit_value c = of_char c - 48"

fun parse_digits :: "string \<Rightarrow> int \<Rightarrow> bool \<Rightarrow> int option" where
  "parse_digits [] acc after_digit = (if after_digit then Some acc else None)"
| "parse_digits (c # cs) acc after_digit =
     (if is_digit c then parse_digits cs (10 * acc + digit_value c) True
      else if c = CHR ''_'' \<and> after_digit then parse_digits cs acc False
      else None)"

definition py_int :: "string \<Rightarrow> int option" where
  "py_int s =
     (case s of
        [] \<Rightarrow> None
      | c # cs \<Rightarrow>
          if c = CHR ''-'' then map_option uminus (parse_digits cs 0 False)
          else if c = CHR ''+'' then parse_digits cs 0 False
          else parse_digits s 0 False)"

subsection \<open>Python float arithmetic used for the percentage\<close>

text \<open>
  The percentage is \<^verbatim>\<open>round((files_completed / total_files) * 100)\<close>: a true division of
  two integers, a float multiplication and \<^verbatim>\<open>round\<close>. A finite float is the rational
  number it denotes. Each operation returns the binary64 value nearest to the exact
  result, ties to the even significand; \<^verbatim>\<open>round\<close> of a float returns the nearest
  integer, ties to the even one. The exact result is not enough: 23 / 40 * 100 is
  57.49999999999999 in binary64 and rounds to 57, where the exact 57.5 would give 58.
\<close>

text \<open>
  What Python can raise, by class. The last two classes derive from
  \<^verbatim>\<open>BaseException\<close> only, the others from \<^verbatim>\<open>Exception\<close>.
\<close>

datatype exn =
    Exception string
  | PermissionError string
  | OverflowError string
  | ZeroDivisionError string
  | ValueError string
  | IndexError string
  | KeyboardInterrupt string
  | SystemExit string

text \<open>\<^verbatim>\<open>str(e)\<close>: the text an exception carries.\<close>

fun exn_text :: "exn \<Rightarrow> string" where
  "exn_text (Exception m) = m"
| "exn_text (PermissionError m) = m"
| "exn_text (OverflowError m) = m"
| "exn_text (ZeroDivisionError m) = m"
| "exn_text (ValueError m) = m"
| "exn_text (IndexError m) = m"
| "exn_text (KeyboardInterrupt m) = m"
| "exn_text (SystemExit m) = m"

text \<open>
  \<^verbatim>\<open>isinstance(e, Exception)\<close>: what a handler \<^verbatim>\<open>except Exception\<close> catches.
\<close>

fun is_exception :: "exn \<Rightarrow> bool" where
  "is_exception (KeyboardInterrupt m) = False"
| "is_exception (SystemExit m) = False"
| "is_exception e = True"

datatype pyfloat = Finite rat | Infinity | NegInfinity

text \<open>For \<open>n > 0\<close>, the position of the highest set bit of \<open>n\<close>.\<close>

function ilog2 :: "int \<Rightarrow> int" where
  "ilog2 n = (if n < 2 then 0 else 1 + ilog2 (n div 2))"
  by pat_completeness auto
termination
  by (relation "measure nat") auto

definition pow2 :: "int \<Rightarrow> rat" where
  "pow2 e = (if 0 \<le> e then 2 ^ nat e else 1 / 2 ^ nat (- e))"

text \<open>For \<open>x > 0\<close>, the exponent \<open>e\<close> with \<open>2 ^ e \<le> x < 2 ^ (e + 1)\<close>.\<close>

definition binary_exponent :: "rat \<Rightarrow> int" where
  "binary_exponent x =
     (let (n, d) = quotient_of x;
          k = ilog2 n - ilog2 d
      in if pow2 k \<le> x then k else k - 1)"

definition round_half_even :: "rat \<Rightarrow> int" where
  "round_half_even x =
     (let f = \<lfloor>x\<rfloor>; r = x - of_int f
      in if r < 1 / 2 then f
         else if 1 / 2 < r then f + 1
         else if even f then f else f + 1)"

text \<open>
  The binary64 value nearest to \<open>x\<close>: 53 significant bits, so the spacing \<open>q\<close> of the
  values around \<open>x\<close> is 2 to the exponent of \<open>x\<close> minus 52; the smallest exponent is
  -1022 (below it the spacing stays 2 to the -1074); a rounded value whose exponent
  reaches 1024, that is one of magnitude 2 to the 1024 or more, is an infinity.
\<close>

definition to_double :: "rat \<Rightarrow> pyfloat" where
  "to_double x =
     (if x = 0 then Finite 0
      else let e = max (binary_exponent \<bar>x\<bar>) (- 1022);
               q = pow2 (e - 52);
               r = of_int (round_half_even (x / q)) * q
           in if r \<noteq> 0 \<and> 1024 \<le> binary_exponent \<bar>r\<bar>
              then (if 0 < r then Infinity else NegInfinity)
              else Finite r)"

text \<open>\<^verbatim>\<open>a / b\<close> on integers: a finite float, or an exception.\<close>

definition py_truediv :: "int \<Rightarrow> int \<Rightarrow> exn + rat" where
  "py_truediv a b =
     (if b = 0 then Inl (ZeroDivisionError ''division by zero'')
      else (case to_double (of_int a / of_int b) of
              Finite r \<Rightarrow> Inr r
            | _ \<Rightarrow> Inl (OverflowError ''integer division result too large for a float'')))"

text \<open>\<^verbatim>\<open>x * y\<close> on finite floats: overflow gives an infinity, not an exception.\<close>

definition py_float_mul :: "rat \<Rightarrow> rat \<Rightarrow> pyfloat" where
  "py_float_mul x y = to_double (x * y)"

text \<open>\<^verbatim>\<open>round(x)\<close> on a float.\<close>

fun py_round :: "pyfloat \<Rightarrow> exn + int" where
  "py_round (Finite r) = Inr (round_half_even r)"
| "py_round _ = Inl (OverflowError ''cannot convert float infinity to integer'')"

text \<open>\<^verbatim>\<open>min(99, round((files_completed / total_files) * 100))\<close>, line 194.\<close>

definition percentage_of :: "nat \<Rightarrow> nat \<Rightarrow> exn + int" where
  "percentage_of n_completed n_total =
     (case py_truediv (int n_completed) (int n_total) of
        Inl e \<Rightarrow> Inl e
      | Inr q \<Rightarrow>
          (case py_round (py_float_mul q 100) of
             Inl e \<Rightarrow> Inl e
           | Inr r \<Rightarrow> Inr (min 99 r)))"

subsection \<open>The shared job state\<close>

text \<open>
  The dictionary \<^verbatim>\<open>sync_state\<close> (lines 39 to 43) and the two dictionaries stored in it.
  The key \<^verbatim>\<open>"status"\<close> of the progress dictionary is the field \<open>run_status\<close>, since
  the result dictionary has a key of the same name.
\<close>

record job_progress =
  run_status :: string
  started_at :: string
  current_file :: "string option"
  files_completed :: nat
  total_files :: nat
  percentage :: int

record job_result =
  status :: string
  message :: string
  timestamp :: string
  files_transferred :: int
  warnings :: "string list option"

record sync_state =
  is_running :: bool
  progress :: "job_progress option"
  last_sync :: "job_result option"

definition initial_state :: sync_state where
  "initial_state = \<lparr>is_running = False, progress = None, last_sync = None\<rparr>"

subsection \<open>The outside world\<close>

text \<open>
  One entry of \<^verbatim>\<open>directory.rglob('*')\<close> as \<^verbatim>\<open>count_source_files\<close> sees it: an item that
  is a file or not, or the point where the scan raises an exception that derives from
  \<^verbatim>\<open>Exception\<close>, which line 53 catches.
\<close>

datatype scan_item = Item bool | ScanRaises

text \<open>
  What the outside answers during one request or one run of the job. \<open>free_gb\<close> is the
  value of \<^verbatim>\<open>get_disk_space(DESTINATION_DIR)["free_gb"]\<close> and \<open>free_gb_text\<close> its
  formatting; \<open>stdout_lines\<close> are the lines the child process writes, each with its line
  end, and \<open>stdout_raises\<close> an exception of the read after the last of them.
\<close>

record world =
  source_dir :: string
  destination_dir :: string
  source_rglob :: "scan_item list"
  rsync_installed :: bool
  source_exists :: bool
  source_iterdir :: "exn + string list"
  mkdir_raises :: "exn option"
  write_test_raises :: "exn option"
  free_gb :: rat
  free_gb_text :: string
  popen_raises :: "exn option"
  stdout_lines :: "string list"
  stdout_raises :: "exn option"
  stderr_read :: "exn + string"
  returncode :: int
  now_started :: string
  now_finished :: string
  now_request :: string

text \<open>\<^verbatim>\<open>count_source_files\<close>, lines 47 to 55: an exception of the scan ends the count.\<close>

fun count_loop :: "scan_item list \<Rightarrow> nat \<Rightarrow> nat" where
  "count_loop [] count = count"
| "count_loop (ScanRaises # rest) count = count"
| "count_loop (Item is_file # rest) count =
     count_loop rest (if is_file then count + 1 else count)"

definition count_source_files :: "scan_item list \<Rightarrow> nat" where
  "count_source_files directory = count_loop directory 0"

subsection \<open>The blocks run under \<^verbatim>\<open>sync_lock\<close>\<close>

text \<open>Lines 120 to 129.\<close>

definition set_running :: "string \<Rightarrow> nat \<Rightarrow> sync_state \<Rightarrow> sync_state" where
  "set_running now n_total s =
     s\<lparr>is_running := True,
       progress := Some \<lparr>run_status = ''running'', started_at = now, current_file = None,
                         files_completed = 0, total_files = n_total, percentage = 0\<rparr>\<rparr>"

text \<open>
  Lines 189 to 194. The block does nothing when there is no progress dictionary. An
  exception of the percentage leaves the two assignments before it in place.
\<close>

definition update_progress ::
    "string \<Rightarrow> nat \<Rightarrow> nat \<Rightarrow> sync_state \<Rightarrow> exn option \<times> sync_state" where
  "update_progress line_stripped n_completed n_total s =
     (case progress s of
        None \<Rightarrow> (None, s)
      | Some p \<Rightarrow>
          (let p1 = p\<lparr>current_file := Some (take 100 line_stripped),
                       files_completed := n_completed\<rparr>
           in if 0 < n_total
              then (case percentage_of n_completed n_total of
                      Inl e \<Rightarrow> (Some e, s\<lparr>progress := Some p1\<rparr>)
                    | Inr v \<Rightarrow> (None, s\<lparr>progress := Some (p1\<lparr>percentage := v\<rparr>)\<rparr>))
              else (None, s\<lparr>progress := Some p1\<rparr>)))"

text \<open>Lines 147 to 156, 239 to 248 and 252 to 261.\<close>

definition set_last_sync :: "job_result \<Rightarrow> sync_state \<Rightarrow> sync_state" where
  "set_last_sync r s = s\<lparr>is_running := False, progress := None, last_sync := Some r\<rparr>"

text \<open>
  One step of the shared state: some block under the lock ran. Every write of
  \<^verbatim>\<open>sync_state\<close> in the program is one of the three.
\<close>

inductive locked_step :: "sync_state \<Rightarrow> sync_state \<Rightarrow> bool" where
  step_running: "locked_step s (set_running now n_total s)"
| step_progress: "locked_step s (snd (update_progress line_stripped n_completed n_total s))"
| step_last_sync: "locked_step s (set_last_sync r s)"

subsection \<open>Reading the output of rsync\<close>

text \<open>The test of line 187, on the stripped line.\<close>

definition counts_as_item :: "string \<Rightarrow> bool" where
  "counts_as_item line_stripped =
     (line_stripped \<noteq> [] \<and> \<not> startswith line_stripped '' '' \<and> \<not> endswith line_stripped ''/'')"

text \<open>
  One turn of the loop of lines 184 to 194: the exception raised, the new value of the
  local \<^verbatim>\<open>files_completed\<close>, and the shared state if the locked block ran.
\<close>

definition process_line ::
    "nat \<Rightarrow> string \<Rightarrow> nat \<Rightarrow> sync_state \<Rightarrow> exn option \<times> nat \<times> sync_state option" where
  "process_line n_total line n_completed s =
     (let line_stripped = strip line
      in if counts_as_item line_stripped
         then (case update_progress line_stripped (n_completed + 1) n_total s of
                 (ex, s') \<Rightarrow> (ex, n_completed + 1, Some s'))
         else (None, n_completed, None))"

text \<open>The loop: the exception that ended it, and the states it stored, in order.\<close>

fun stream_stdout ::
    "nat \<Rightarrow> string list \<Rightarrow> nat \<Rightarrow> sync_state \<Rightarrow> exn option \<times> sync_state list" where
  "stream_stdout n_total [] n_completed s = (None, [])"
| "stream_stdout n_total (line # rest) n_completed s =
     (case process_line n_total line n_completed s of
        (Some e, n, None) \<Rightarrow> (Some e, [])
      | (Some e, n, Some s') \<Rightarrow> (Some e, [s'])
      | (None, n, None) \<Rightarrow> stream_stdout n_total rest n s
      | (None, n, Some s') \<Rightarrow>
          (case stream_stdout n_total rest n s' of (ex, tr) \<Rightarrow> (ex, s' # tr)))"

text \<open>Lines 204 to 225: status, message and the list \<^verbatim>\<open>warnings\<close> after the chain.\<close>

definition classify_outcome ::
    "int \<Rightarrow> string \<Rightarrow> string list \<Rightarrow> string \<times> string \<times> string list" where
  "classify_outcome result_returncode stderr ws =
     (let stderr_lower = lower stderr
      in if result_returncode = 0 then (''success'', ''Sync completed'', ws)
         else if result_returncode \<in> set [3] then (''failed'', ''Permission denied'', ws)
         else if result_returncode = 11
           then (''failed'',
                 if contains ''no space left'' stderr_lower then ''Disk full'' else ''Disk I/O error'',
                 ws)
         else if result_returncode = 23
           then (''warning'', ''Partial transfer - some files failed'',
                 ws @ [''Some files had errors''])
         else if result_returncode = 24
           then (''warning'', ''Files vanished during sync'',
                 ws @ [''Some files were deleted during sync''])
         else (''failed'', ''Rsync failed with code '' @ str_int result_returncode, ws))"

text \<open>
  Line 233, \<^verbatim>\<open>int(line.split(':')[1].strip())\<close>: \<^verbatim>\<open>IndexError\<close> without a second
  part, \<^verbatim>\<open>ValueError\<close> when the part is no integer.
\<close>

definition parse_transferred :: "string \<Rightarrow> exn + int" where
  "parse_transferred line =
     (case split_on CHR '':'' line of
        part0 # part1 # parts \<Rightarrow>
          (case py_int (strip part1) of
             Some v \<Rightarrow> Inr v
           | None \<Rightarrow> Inl (ValueError ''invalid literal for int() with base 10''))
      | _ \<Rightarrow> Inl (IndexError ''list index out of range''))"

text \<open>Lines 230 to 235: the loop over the lines, with the count so far.\<close>

fun scan_transferred :: "string list \<Rightarrow> int \<Rightarrow> int" where
  "scan_transferred [] n = n"
| "scan_transferred (line # rest) n =
     (if contains ''Number of regular files transferred:'' line
      then (case parse_transferred line of
              Inr v \<Rightarrow> scan_transferred rest v
            | Inl e \<Rightarrow> scan_transferred rest n)
      else scan_transferred rest n)"

text \<open>Lines 227 to 235.\<close>

definition extract_transferred :: "string \<Rightarrow> int" where
  "extract_transferred output = scan_transferred (split_on (CHR 0x0A) output) 0"

subsection \<open>The job body\<close>

text \<open>
  What one run of the job did: the exception that left it, the shared states it
  stored (one per block under the lock, in order), and the commands it gave to
  \<^verbatim>\<open>subprocess.Popen\<close>.
\<close>

record job_run =
  raised :: "exn option"
  states :: "sync_state list"
  launched :: "string list list"

text \<open>The shared state after the run, when nothing else wrote to it meanwhile.\<close>

definition final_state :: "sync_state \<Rightarrow> job_run \<Rightarrow> sync_state" where
  "final_state s r = last (s # states r)"

text \<open>Lines 172 to 176.\<close>

definition cmd :: "world \<Rightarrow> string list" where
  "cmd w = [''rsync'', ''-avh'', ''--progress'', ''--stats'', ''--delete'',
            ''--partial-dir=.rsync-partial'',
            source_dir w @ ''/'', destination_dir w @ ''/'']"

text \<open>
  Lines 139 to 144: \<^verbatim>\<open>source_empty\<close>. An exception of the listing that the handler
  of line 143 catches is logged and the flag stays false.
\<close>

definition source_empty :: "world \<Rightarrow> bool" where
  "source_empty w = (case source_iterdir w of Inl e \<Rightarrow> False | Inr entries \<Rightarrow> entries = [])"

text \<open>
  The handler of line 143 is \<^verbatim>\<open>except Exception\<close>: an exception of the listing of
  another class leaves the inner \<^verbatim>\<open>try\<close>.
\<close>

definition listing_escapes :: "world \<Rightarrow> exn option" where
  "listing_escapes w =
     (case source_iterdir w of
        Inl e \<Rightarrow> if is_exception e then None else Some e
      | Inr entries \<Rightarrow> None)"

text \<open>
  Lines 180 to 248, from the start of the child process on; \<open>s1\<close> is the shared
  state at that point. The loop keeps every line it reads, so \<^verbatim>\<open>result_stdout\<close> is
  all the lines of the child process, joined.
\<close>

definition sync_with_rsync :: "world \<Rightarrow> nat \<Rightarrow> sync_state \<Rightarrow> job_run" where
  "sync_with_rsync w n_total s1 =
     (case popen_raises w of
        Some e \<Rightarrow> \<lparr>raised = Some e, states = [], launched = [cmd w]\<rparr>
      | None \<Rightarrow>
          (case stream_stdout n_total (stdout_lines w) 0 s1 of
             (Some e, tr) \<Rightarrow> \<lparr>raised = Some e, states = tr, launched = [cmd w]\<rparr>
           | (None, tr) \<Rightarrow>
               (case stdout_raises w of
                  Some e \<Rightarrow> \<lparr>raised = Some e, states = tr, launched = [cmd w]\<rparr>
                | None \<Rightarrow>
                    (case stderr_read w of
                       Inl e \<Rightarrow> \<lparr>raised = Some e, states = tr, launched = [cmd w]\<rparr>
                     | Inr stderr \<Rightarrow>
                         (let result_stdout = concat (stdout_lines w);
                              (st, msg, ws) = classify_outcome (returncode w) stderr [];
                              output = result_stdout @ stderr;
                              n_transferred = extract_transferred output;
                              result = \<lparr>status = st, message = msg,
                                        timestamp = now_finished w,
                                        files_transferred = n_transferred,
                                        warnings = (if ws \<noteq> [] then Some ws else None)\<rparr>
                          in \<lparr>raised = None,
                              states = tr @ [set_last_sync result (last (s1 # tr))],
                              launched = [cmd w]\<rparr>)))))"

text \<open>The \<^verbatim>\<open>try\<close> block, lines 118 to 248.\<close>

definition job_body :: "world \<Rightarrow> sync_state \<Rightarrow> job_run" where
  "job_body w s =
     (let n_total = count_source_files (source_rglob w);
          s1 = set_running (now_started w) n_total s
      in if \<not> rsync_installed w
         then \<lparr>raised = Some (Exception ''rsync not installed''), states = [s1], launched = []\<rparr>
         else if \<not> source_exists w
         then \<lparr>raised = Some (Exception (''Source not found: '' @ source_dir w)),
               states = [s1], launched = []\<rparr>
         else if listing_escapes w \<noteq> None
         then \<lparr>raised = listing_escapes w, states = [s1], launched = []\<rparr>
         else if source_empty w
         then \<lparr>raised = None,
               states = [s1, set_last_sync
                          \<lparr>status = ''success'', message = ''Source is empty - nothing to sync'',
                           timestamp = now_finished w, files_transferred = 0,
                           warnings = Some [''Source directory is empty'']\<rparr> s1],
               launched = []\<rparr>
         else (case mkdir_raises w of
                 Some e \<Rightarrow> \<lparr>raised = Some e, states = [s1], launched = []\<rparr>
               | None \<Rightarrow>
                   (case write_test_raises w of
                      Some (PermissionError m) \<Rightarrow>
                        \<lparr>raised = Some (Exception (''Cannot write to destination: '' @ destination_dir w)),
                         states = [s1], launched = []\<rparr>
                    | Some e \<Rightarrow> \<lparr>raised = Some e, states = [s1], launched = []\<rparr>
                    | None \<Rightarrow>
                        if free_gb w < 1 / 2
                        then \<lparr>raised = Some (Exception (''Low disk space: only '' @ free_gb_text w @ ''GB free'')),
                              states = [s1], launched = []\<rparr>
                        else (let r = sync_with_rsync w n_total s1
                              in r\<lparr>states := s1 # states r\<rparr>))))"

text \<open>
  \<^verbatim>\<open>run_sync_background\<close>, lines 113 to 261: the \<^verbatim>\<open>try\<close> block and its handler
  \<^verbatim>\<open>except Exception\<close>, which stores a failed result with the text of the exception.
  An exception of another class is not caught: it leaves the function, and the shared
  state stays as the block left it.
\<close>

definition run_sync_background :: "world \<Rightarrow> sync_state \<Rightarrow> job_run" where
  "run_sync_background w s =
     (let r = job_body w s
      in case raised r of
           None \<Rightarrow> r
         | Some e \<Rightarrow>
             if is_exception e
             then r\<lparr>raised := None,
                    states := states r @
                      [set_last_sync
                         \<lparr>status = ''failed'', message = exn_text e,
                          timestamp = now_finished w,
                          files_transferred = 0, warnings = None\<rparr>
                         (final_state s r)]\<rparr>
             else r)"

subsection \<open>Starting a job\<close>

datatype http_exception = HTTPException nat string

datatype task = RunSyncBackground

record start_response =
  response_status :: string
  response_message :: string
  response_timestamp :: string
  source_path :: string
  destination_path :: string

text \<open>
  \<^verbatim>\<open>sync_folders\<close>, lines 264 to 284: the response or the HTTP error, the tasks
  scheduled on \<^verbatim>\<open>background_tasks\<close>, and the shared state after the call.
\<close>

definition sync_folders ::
    "world \<Rightarrow> sync_state \<Rightarrow> task list \<Rightarrow>
       (http_exception + start_response) \<times> task list \<times> sync_state" where
  "sync_folders w s background_tasks =
     (if is_running s
      then (Inl (HTTPException 409 ''Sync already in progress''), background_tasks, s)
      else if \<not> rsync_installed w
      then (Inl (HTTPException 500 ''rsync not installed''), background_tasks, s)
      else if \<not> source_exists w
      then (Inl (HTTPException 404 (''Source not found: '' @ source_dir w)), background_tasks, s)
      else (Inr \<lparr>response_status = ''started'',
                 response_message = ''Sync started in background'',
                 response_timestamp = now_request w,
                 source_path = source_dir w,
                 destination_path = destination_dir w\<rparr>,
            background_tasks @ [RunSyncBackground], s))"

subsection \<open>Predicates of the specification\<close>

text \<open>
  The invariant of the job state: \<^verbatim>\<open>is_running\<close> is set exactly when a progress
  dictionary is present.
\<close>

definition consistent :: "sync_state \<Rightarrow> bool" where
  "consistent s = (is_running s \<longleftrightarrow> progress s \<noteq> None)"

text \<open>The percentage of a present progress dictionary lies between 0 and 99.\<close>

definition percentage_in_range :: "sync_state \<Rightarrow> bool" where
  "percentage_in_range s =
     (case progress s of None \<Rightarrow> True | Some p \<Rightarrow> 0 \<le> percentage p \<and> percentage p \<le> 99)"

text \<open>
  \<open>hay\<close> contains \<open>needle\<close> when the case of letters is ignored: some contiguous part
  of \<open>hay\<close> has the lower-case form of \<open>needle\<close>.
\<close>

definition contains_ignoring_case :: "string \<Rightarrow> string \<Rightarrow> bool" where
  "contains_ignoring_case needle hay =
     (\<exists>pre mid post. hay = pre @ mid @ post \<and> lower mid = lower needle)"

text \<open>
  The counts that parse, in the order of the output: of every line with the label
  "Number of regular files transferred:", the integer that line 233 reads from it, when
  it reads one.
\<close>

definition parsed_counts :: "string \<Rightarrow> int list" where
  "parsed_counts output =
     List.map_filter
       (\<lambda>line. case parse_transferred line of Inr v \<Rightarrow> Some v | Inl e \<Rightarrow> None)
       (filter (contains ''Number of regular files transferred:'') (split_on (CHR 0x0A) output))"

subsection \<open>Example inputs\<close>

text \<open>
  A run that copies two files: rsync prints each name, a statistics line after it, a
  directory and its summary, and exits with 0.
\<close>

definition demo_world :: world where
  "demo_world =
     \<lparr>source_dir = ''/data/source'', destination_dir = ''/data/destination'',
      source_rglob = [Item True, Item False, Item True],
      rsync_installed = True, source_exists = True,
      source_iterdir = Inr [''a.txt'', ''docs''],
      mkdir_raises = None, write_test_raises = None,
      free_gb = 10, free_gb_text = ''10.0'', popen_raises = None,
      stdout_lines =
        [''a.txt'' @ [CHR 0x0A],
         ''  1,234 100%  0.00kB/s'' @ [CHR 0x0A],
         ''docs/'' @ [CHR 0x0A],
         ''docs/b.txt'' @ [CHR 0x0A],
         ''Number of regular files transferred: 2'' @ [CHR 0x0A]],
      stdout_raises = None, stderr_read = Inr [], returncode = 0,
      now_started = ''2024-01-01T10:00:00'', now_finished = ''2024-01-01T10:00:05'',
      now_request = ''2024-01-01T09:59:59''\<rparr>"

text \<open>The shared state while a job with four files to process runs.\<close>

definition running_state :: sync_state where
  "running_state = set_running ''2024-01-01T10:00:00'' 4 initial_state"

text \<open>An output line with a name of 128 characters.\<close>

definition long_line :: string where
  "long_line = ''  dir/'' @ replicate 120 CHR ''a'' @ ''.txt'' @ [CHR 0x0A]"

text \<open>
  The same run when the count of the source files fails at once: \<^verbatim>\<open>total_files\<close> is 0
  although there are files to copy.
\<close>

definition uncounted_world :: world where
  "uncounted_world = demo_world\<lparr>source_rglob := [ScanRaises, Item True]\<rparr>"




text \<open>A source directory that exists and has no entry.\<close>

definition empty_source_world :: world where
  "empty_source_world = demo_world\<lparr>source_rglob := [], source_iterdir := Inr []\<rparr>"

text \<open>The same run when rsync exits with 11 after the destination has filled up.\<close>

definition disk_full_world :: world where
  "disk_full_world =
     demo_world\<lparr>returncode := 11,
       stderr_read := Inr (''rsync: write failed on /data/destination/a.txt: No space left on device (28)'' @ [CHR 0x0A])\<rparr>"

text \<open>
  An output with the label on three lines; the last of them has a thousands separator,
  as rsync prints with \<^verbatim>\<open>-h\<close>, which \<^verbatim>\<open>int\<close> does not read.
\<close>

definition summary_output :: string where
  "summary_output =
     concat (map (\<lambda>l. l @ [CHR 0x0A])
       [''a.txt'',
        ''Number of regular files transferred: 5'',
        ''Number of regular files transferred: 7'',
        ''Number of regular files transferred: 1,234'',
        ''total size is 10  speedup is 1.00''])"

section \<open>Properties\<close>

subsection \<open>Stripped lines\<close>

lemma prefix_rev_dropWhile_rev: "prefix (rev (dropWhile P (rev t))) t"
  by (induction t rule: rev_induct) simp_all

lemma strip_Cons_not_space: "strip s = c # cs \<Longrightarrow> \<not> is_space c"
proof -
  assume a: "strip s = c # cs"
  let ?t = "dropWhile is_space s"
  have "prefix (strip s) ?t"
    unfolding strip_def by (rule prefix_rev_dropWhile_rev)
  with a obtain zs where t: "?t = c # cs @ zs"
    by (auto simp: prefix_def)
  then have "?t \<noteq> []" by simp
  then have "\<not> is_space (hd ?t)" by (rule hd_dropWhile)
  with t show ?thesis by simp
qed

lemma space_is_space: "is_space CHR '' ''"
  by (simp add: is_space_def)

text \<open>The middle test of line 187 never fails: a stripped line starts with no space.\<close>

lemma strip_not_startswith_space: "\<not> startswith (strip line) '' ''"
proof
  assume "startswith (strip line) '' ''"
  then obtain cs where "strip line = CHR '' '' # cs"
    by (auto simp: startswith_def prefix_def)
  then have "\<not> is_space CHR '' ''" by (rule strip_Cons_not_space)
  then show False by (simp add: space_is_space)
qed

lemma counts_as_item_strip:
  "counts_as_item (strip line) \<longleftrightarrow> strip line \<noteq> [] \<and> \<not> endswith (strip line) ''/''"
  by (simp add: counts_as_item_def strip_not_startswith_space)

lemma strip_statistics_line: "strip ''  1,234 100%  0.00kB/s'' = ''1,234 100%  0.00kB/s''"
  by (simp add: strip_def is_space_def)

lemma statistics_line_counts_as_item: "counts_as_item ''1,234 100%  0.00kB/s''"
  by (simp add: counts_as_item_def startswith_def endswith_def suffix_def)

lemma directory_line_is_noise: "\<not> counts_as_item (strip ''some/dir/'')"
  by (simp add: counts_as_item_def startswith_def endswith_def suffix_def strip_def is_space_def)

lemma file_line_counts_as_item: "counts_as_item (strip ''some/file.txt'')"
  by (simp add: counts_as_item_def startswith_def endswith_def suffix_def strip_def is_space_def)

lemma process_line_item:
  "counts_as_item (strip line) \<Longrightarrow>
   process_line n_total line n_completed s =
     (fst (update_progress (strip line) (n_completed + 1) n_total s), n_completed + 1,
      Some (snd (update_progress (strip line) (n_completed + 1) n_total s)))"
  by (simp add: process_line_def split: prod.splits)

lemma process_line_noise:
  "\<not> counts_as_item (strip line) \<Longrightarrow>
   process_line n_total line n_completed s = (None, n_completed, None)"
  by (simp add: process_line_def)

lemma update_progress_current_file:
  "progress s = Some p \<Longrightarrow>
   \<exists>p'. progress (snd (update_progress l c t s)) = Some p' \<and>
        current_file p' = Some (take 100 l) \<and> files_completed p' = c"
  by (auto simp: update_progress_def Let_def split: sum.splits)

text \<open>
  Claim C1, at the statistics line of the specification: the claim calls the line
  noise, the loop counts it. The line is stripped before the test for a leading
  space, so the local counter \<^verbatim>\<open>files_completed\<close> goes up by one, and the
  locked block stores the count and the stripped line in the progress dictionary.
\<close>

theorem statistics_line_is_counted:
  "counts_as_item (strip ''  1,234 100%  0.00kB/s'') \<and>
   fst (snd (process_line n_total ''  1,234 100%  0.00kB/s'' n_completed s)) = n_completed + 1 \<and>
   process_line 4 ''  1,234 100%  0.00kB/s'' 0 running_state =
     (None, 1,
      Some \<lparr>is_running = True,
            progress = Some \<lparr>run_status = ''running'', started_at = ''2024-01-01T10:00:00'',
                              current_file = Some ''1,234 100%  0.00kB/s'',
                              files_completed = 1, total_files = 4, percentage = 25\<rparr>,
            last_sync = None\<rparr>)"
proof -
  have "process_line 4 ''  1,234 100%  0.00kB/s'' 0 running_state =
     (None, 1,
      Some \<lparr>is_running = True,
            progress = Some \<lparr>run_status = ''running'', started_at = ''2024-01-01T10:00:00'',
                              current_file = Some ''1,234 100%  0.00kB/s'',
                              files_completed = 1, total_files = 4, percentage = 25\<rparr>,
            last_sync = None\<rparr>)"
    by code_simp
  then show ?thesis
    by (simp add: process_line_item strip_statistics_line statistics_line_counts_as_item)
qed

text \<open>
  Claim C5: a start request that finds \<^verbatim>\<open>is_running\<close> set fails with status 409 and
  the detail "Sync already in progress", schedules nothing and leaves the shared state
  as it was, whether or not rsync is installed and the source exists.
\<close>

theorem start_while_running_conflict:
  "is_running s \<Longrightarrow>
   sync_folders w s background_tasks =
     (Inl (HTTPException 409 ''Sync already in progress''), background_tasks, s)"
  by (simp add: sync_folders_def)

theorem start_while_running_conflict_witness:
  "is_running running_state \<and>
   sync_folders (demo_world\<lparr>rsync_installed := False, source_exists := False\<rparr>)
       running_state [] =
     (Inl (HTTPException 409 ''Sync already in progress''), [], running_state)"
proof -
  have a: "is_running running_state"
    by (simp add: running_state_def set_running_def)
  from start_while_running_conflict [OF a] a show ?thesis by simp
qed

subsection \<open>Invariants of the states a job stores\<close>

lemma stream_stdout_Cons:
  "stream_stdout n_total (line # rest) n_completed s =
     (if counts_as_item (strip line)
      then (case update_progress (strip line) (n_completed + 1) n_total s of
              (Some e, s') \<Rightarrow> (Some e, [s'])
            | (None, s') \<Rightarrow>
                (case stream_stdout n_total rest (n_completed + 1) s' of
                   (ex, tr) \<Rightarrow> (ex, s' # tr)))
      else stream_stdout n_total rest n_completed s)"
  by (simp add: process_line_def split: prod.splits option.splits)

text \<open>
  A property of the shared state that the three locked blocks of one run keep holds for
  every state the run stores. The run only calls \<open>update_progress\<close> with its own count
  of the source files, so the block needs to keep the property for that count only.
\<close>

lemma stream_stdout_invariant:
  assumes step: "\<And>l c s. I s \<Longrightarrow> I (snd (update_progress l c n_total s))"
  shows "I s \<Longrightarrow> s' \<in> set (snd (stream_stdout n_total ls n_completed s)) \<Longrightarrow> I s'"
proof (induction ls arbitrary: n_completed s)
  case Nil
  then show ?case by simp
next
  case (Cons line rest)
  show ?case
  proof (cases "counts_as_item (strip line)")
    case False
    with Cons show ?thesis by (simp add: stream_stdout_Cons del: stream_stdout.simps)
  next
    case True
    let ?u = "update_progress (strip line) (n_completed + 1) n_total s"
    have u: "I (snd ?u)" using Cons.prems(1) by (rule step)
    show ?thesis
    proof (cases "fst ?u")
      case (Some e)
      with True Cons.prems(2) u show ?thesis
        by (simp add: stream_stdout_Cons split: prod.splits del: stream_stdout.simps)
    next
      case None
      with True Cons.prems(2) have
        "s' = snd ?u \<or> s' \<in> set (snd (stream_stdout n_total rest (n_completed + 1) (snd ?u)))"
        by (auto simp add: stream_stdout_Cons split: prod.splits simp del: stream_stdout.simps)
      with u Cons.IH show ?thesis by blast
    qed
  qed
qed

lemma sync_with_rsync_invariant:
  assumes step: "\<And>l c s. I s \<Longrightarrow> I (snd (update_progress l c n_total s))"
      and fin: "\<And>r s. I (set_last_sync r s)"
  shows "I s1 \<Longrightarrow> s' \<in> set (states (sync_with_rsync w n_total s1)) \<Longrightarrow> I s'"
proof -
  assume s1: "I s1" and mem: "s' \<in> set (states (sync_with_rsync w n_total s1))"
  let ?tr = "snd (stream_stdout n_total (stdout_lines w) 0 s1)"
  have tr: "I x" if "x \<in> set ?tr" for x
    using s1 that by (rule stream_stdout_invariant [where I = I, rotated]) (rule step)
  from mem have "s' \<in> set ?tr \<or> (\<exists>r x. s' = set_last_sync r x)"
    by (auto simp: sync_with_rsync_def Let_def split: option.splits prod.splits sum.splits)
  with tr fin show ?thesis by blast
qed

lemma job_body_invariant:
  assumes start: "\<And>now s. I (set_running now (count_source_files (source_rglob w)) s)"
      and step: "\<And>l c s. I s \<Longrightarrow>
                   I (snd (update_progress l c (count_source_files (source_rglob w)) s))"
      and fin: "\<And>r s. I (set_last_sync r s)"
      and mem: "s' \<in> set (states (job_body w s))"
  shows "I s'"
proof -
  let ?n = "count_source_files (source_rglob w)"
  let ?s1 = "set_running (now_started w) ?n s"
  have s1: "I ?s1" by (rule start)
  have rs: "I x" if "x \<in> set (states (sync_with_rsync w ?n ?s1))" for x
  proof (rule sync_with_rsync_invariant [where I = I])
    show "I (snd (update_progress l c ?n u))" if "I u" for l c u
      using that by (rule step)
    show "I (set_last_sync r u)" for r u by (rule fin)
    show "I ?s1" by (rule s1)
    show "x \<in> set (states (sync_with_rsync w ?n ?s1))" by (rule that)
  qed
  from mem have "s' = ?s1 \<or> (\<exists>r. s' = set_last_sync r ?s1) \<or>
      s' \<in> set (states (sync_with_rsync w ?n ?s1))"
    by (auto simp: job_body_def Let_def split: option.splits exn.splits if_splits)
  with s1 rs fin show ?thesis by blast
qed

lemma run_states_invariant:
  assumes start: "\<And>now s. I (set_running now (count_source_files (source_rglob w)) s)"
      and step: "\<And>l c s. I s \<Longrightarrow>
                   I (snd (update_progress l c (count_source_files (source_rglob w)) s))"
      and fin: "\<And>r s. I (set_last_sync r s)"
      and mem: "s' \<in> set (states (run_sync_background w s))"
  shows "I s'"
proof -
  from mem have "s' \<in> set (states (job_body w s)) \<or> (\<exists>r x. s' = set_last_sync r x)"
    by (auto simp: run_sync_background_def Let_def split: option.splits if_splits)
  moreover have "I x" if "x \<in> set (states (job_body w s))" for x
  proof (rule job_body_invariant [where I = I])
    show "I (set_running now (count_source_files (source_rglob w)) u)" for now u
      by (rule start)
    show "I (snd (update_progress l c (count_source_files (source_rglob w)) u))"
      if "I u" for l c u
      using that by (rule step)
    show "I (set_last_sync r u)" for r u by (rule fin)
    show "x \<in> set (states (job_body w s))" by (rule that)
  qed
  ultimately show ?thesis using fin by blast
qed

text \<open>Each state a run stores comes from the one before it by a locked block.\<close>

lemma successively_snoc:
  "successively P (x # xs) \<Longrightarrow> P (last (x # xs)) y \<Longrightarrow> successively P (x # xs @ [y])"
  by (induction xs arbitrary: x) auto

lemma stream_stdout_steps:
  "successively locked_step (s # snd (stream_stdout n_total ls n_completed s))"
proof (induction ls arbitrary: n_completed s)
  case Nil
  then show ?case by simp
next
  case (Cons line rest)
  show ?case
  proof (cases "counts_as_item (strip line)")
    case False
    with Cons show ?thesis by (simp add: stream_stdout_Cons del: stream_stdout.simps)
  next
    case True
    obtain ex s2 where u: "update_progress (strip line) (n_completed + 1) n_total s = (ex, s2)"
      by (cases "update_progress (strip line) (n_completed + 1) n_total s")
    have st: "locked_step s s2"
      using step_progress [of s "strip line" "n_completed + 1" n_total] u by simp
    show ?thesis
    proof (cases ex)
      case (Some e)
      with True u st show ?thesis
        by (simp add: stream_stdout_Cons del: stream_stdout.simps)
    next
      case None
      obtain ex' tr where r: "stream_stdout n_total rest (n_completed + 1) s2 = (ex', tr)"
        by (cases "stream_stdout n_total rest (n_completed + 1) s2")
      have "successively locked_step (s2 # tr)"
        using Cons.IH [of s2 "n_completed + 1"] r by simp
      with True u None r st show ?thesis
        by (simp add: stream_stdout_Cons del: stream_stdout.simps)
    qed
  qed
qed

lemma sync_with_rsync_steps:
  "successively locked_step (s1 # states (sync_with_rsync w n_total s1))"
proof -
  let ?tr = "snd (stream_stdout n_total (stdout_lines w) 0 s1)"
  have tr: "successively locked_step (s1 # ?tr)" by (rule stream_stdout_steps)
  have fin: "successively locked_step (s1 # ?tr @ [set_last_sync r (last (s1 # ?tr))])" for r
    using tr by (rule successively_snoc) (rule step_last_sync)
  have "states (sync_with_rsync w n_total s1) = [] \<or>
        states (sync_with_rsync w n_total s1) = ?tr \<or>
        (\<exists>r. states (sync_with_rsync w n_total s1) = ?tr @ [set_last_sync r (last (s1 # ?tr))])"
    by (auto simp: sync_with_rsync_def Let_def split: option.splits prod.splits sum.splits)
  with tr fin show ?thesis by auto
qed

lemma job_body_steps: "successively locked_step (s # states (job_body w s))"
proof -
  let ?n = "count_source_files (source_rglob w)"
  let ?s1 = "set_running (now_started w) ?n s"
  have s1: "locked_step s ?s1" by (rule step_running)
  have "states (job_body w s) = [?s1] \<or>
        (\<exists>r. states (job_body w s) = [?s1, set_last_sync r ?s1]) \<or>
        states (job_body w s) = ?s1 # states (sync_with_rsync w ?n ?s1)"
    by (auto simp: job_body_def Let_def split: option.splits exn.splits)
  with s1 sync_with_rsync_steps [of ?s1 w ?n] step_last_sync [of ?s1] show ?thesis
    by auto
qed

lemma run_steps: "successively locked_step (s # states (run_sync_background w s))"
proof (cases "raised (job_body w s)")
  case None
  then show ?thesis using job_body_steps [of s w] by (simp add: run_sync_background_def Let_def)
next
  case (Some e)
  have "successively locked_step (s # states (job_body w s) @
      [set_last_sync \<lparr>status = ''failed'', message = exn_text e, timestamp = now_finished w,
                      files_transferred = 0, warnings = None\<rparr> (last (s # states (job_body w s)))])"
    using job_body_steps by (rule successively_snoc) (rule step_last_sync)
  with Some job_body_steps [of s w] show ?thesis
    by (simp add: run_sync_background_def Let_def final_state_def)
qed

lemma consistent_set_running: "consistent (set_running now n s)"
  by (simp add: consistent_def set_running_def)

lemma consistent_set_last_sync: "consistent (set_last_sync r s)"
  by (simp add: consistent_def set_last_sync_def)

lemma consistent_update_progress:
  "consistent s \<Longrightarrow> consistent (snd (update_progress l c t s))"
  by (auto simp: consistent_def update_progress_def Let_def split: option.splits sum.splits)

lemma consistent_locked_step: "locked_step s s' \<Longrightarrow> consistent s \<Longrightarrow> consistent s'"
  by (induction rule: locked_step.induct)
     (simp_all add: consistent_set_running consistent_set_last_sync consistent_update_progress)

lemma consistent_reachable: "locked_step\<^sup>*\<^sup>* s s' \<Longrightarrow> consistent s \<Longrightarrow> consistent s'"
  by (induction rule: rtranclp_induct) (auto intro: consistent_locked_step)


subsection \<open>Rounding\<close>

declare ilog2.simps [simp del]

lemma ilog2_bounds: "0 < n \<Longrightarrow> 0 \<le> ilog2 n \<and> 2 ^ nat (ilog2 n) \<le> n \<and> n < 2 * 2 ^ nat (ilog2 n)"
proof (induction n rule: ilog2.induct)
  case (1 n)
  show ?case
  proof (cases "n < 2")
    case True
    with "1.prems" have "n = 1" by simp
    then show ?thesis by (simp add: ilog2.simps)
  next
    case False
    then have pos: "0 < n div 2" by simp
    have ih: "0 \<le> ilog2 (n div 2) \<and> 2 ^ nat (ilog2 (n div 2)) \<le> n div 2 \<and>
              n div 2 < 2 * 2 ^ nat (ilog2 (n div 2))"
      using "1.IH" [OF False pos] .
    have eq: "ilog2 n = 1 + ilog2 (n div 2)"
      using False by (subst ilog2.simps) simp
    have nat_eq: "nat (ilog2 n) = Suc (nat (ilog2 (n div 2)))"
      using ih eq by (simp add: nat_add_distrib)
    from ih show ?thesis
      unfolding nat_eq using eq by (simp, linarith)
  qed
qed

lemma pow2_powi: "pow2 e = 2 powi e"
  by (simp add: pow2_def power_int_def inverse_eq_divide power_one_over)

lemma pow2_pos: "0 < pow2 e"
  by (simp add: pow2_powi)

lemma pow2_add: "pow2 (a + b) = pow2 a * pow2 b"
  by (simp add: pow2_powi power_int_add)

lemma pow2_mono: "a \<le> b \<Longrightarrow> pow2 a \<le> pow2 b"
  by (simp add: pow2_powi power_int_increasing)

lemma pow2_nat: "0 \<le> e \<Longrightarrow> pow2 e = of_int (2 ^ nat e)"
  by (simp add: pow2_def)

lemma round_half_even_cases:
  "round_half_even x = \<lfloor>x\<rfloor> \<or> round_half_even x = \<lfloor>x\<rfloor> + 1"
  by (simp add: round_half_even_def Let_def)

lemma round_half_even_of_int: "round_half_even (of_int k) = k"
  by (simp add: round_half_even_def Let_def)

lemma round_half_even_mono: "x \<le> y \<Longrightarrow> round_half_even x \<le> round_half_even y"
proof -
  assume le: "x \<le> y"
  then have fl: "\<lfloor>x\<rfloor> \<le> \<lfloor>y\<rfloor>" by (rule floor_mono)
  show ?thesis
  proof (cases "\<lfloor>x\<rfloor> = \<lfloor>y\<rfloor>")
    case True
    with le show ?thesis
      by (auto simp: round_half_even_def Let_def)
  next
    case False
    with fl have "\<lfloor>x\<rfloor> + 1 \<le> \<lfloor>y\<rfloor>" by simp
    moreover have "round_half_even x \<le> \<lfloor>x\<rfloor> + 1"
      using round_half_even_cases [of x] by auto
    moreover have "\<lfloor>y\<rfloor> \<le> round_half_even y"
      using round_half_even_cases [of y] by auto
    ultimately show ?thesis by linarith
  qed
qed

lemma round_half_even_ge: "of_int k \<le> x \<Longrightarrow> k \<le> round_half_even x"
  using round_half_even_mono [of "of_int k" x] by (simp add: round_half_even_of_int)

lemma round_half_even_nonneg: "0 \<le> x \<Longrightarrow> 0 \<le> round_half_even x"
  using round_half_even_ge [of 0 x] by simp

lemma binary_exponent_le:
  assumes "0 < x"
  shows "pow2 (binary_exponent x) \<le> x"
proof -
  obtain n d where q: "quotient_of x = (n, d)" by (cases "quotient_of x")
  then have d: "0 < d" by (rule quotient_of_denom_pos)
  have x: "x = of_int n / of_int d" using q by (rule quotient_of_div)
  with assms d have n: "0 < n" by (simp add: zero_less_divide_iff)
  let ?a = "ilog2 n" and ?b = "ilog2 d"
  let ?k = "?a - ?b"
  have bn: "0 \<le> ?a" "2 ^ nat ?a \<le> n" using ilog2_bounds [OF n] by auto
  have bd: "0 \<le> ?b" "d < 2 * 2 ^ nat ?b" using ilog2_bounds [OF d] by auto
  show ?thesis
  proof (cases "pow2 ?k \<le> x")
    case True
    then show ?thesis by (simp add: binary_exponent_def q)
  next
    case False
    then have e: "binary_exponent x = ?k - 1" by (simp add: binary_exponent_def q)
    have "pow2 (?k - 1) * of_int d \<le> pow2 (?k - 1) * (2 * 2 ^ nat ?b)"
    proof (rule mult_left_mono)
      have "(of_int d :: rat) \<le> of_int (2 * 2 ^ nat ?b)"
        using bd(2) by (simp only: of_int_le_iff)
      then show "(of_int d :: rat) \<le> 2 * 2 ^ nat ?b" by simp
      show "0 \<le> pow2 (?k - 1)" using pow2_pos [of "?k - 1"] by simp
    qed
    also have "pow2 (?k - 1) * (2 * 2 ^ nat ?b) = pow2 (?k - 1) * pow2 (?b + 1)"
      using bd(1) by (simp add: pow2_nat nat_add_distrib)
    also have "\<dots> = pow2 ?a" by (simp add: pow2_add [symmetric])
    also have "\<dots> \<le> of_int n"
    proof -
      have "(of_int (2 ^ nat ?a) :: rat) \<le> of_int n"
        using bn(2) by (simp only: of_int_le_iff)
      then show ?thesis using bn(1) by (simp add: pow2_nat)
    qed
    finally have "pow2 (?k - 1) \<le> of_int n / of_int d"
      using d by (simp add: pos_le_divide_eq)
    with e x show ?thesis by simp
  qed
qed

lemma to_double_Finite:
  assumes "to_double x = Finite r" and "x \<noteq> 0"
  shows "r = of_int (round_half_even (x / pow2 (max (binary_exponent \<bar>x\<bar>) (- 1022) - 52))) *
             pow2 (max (binary_exponent \<bar>x\<bar>) (- 1022) - 52)"
  using assms by (simp add: to_double_def Let_def split: if_splits)

lemma to_double_nonneg:
  assumes "0 \<le> x" and "to_double x = Finite r"
  shows "0 \<le> r"
proof (cases "x = 0")
  case True
  with assms(2) show ?thesis by (simp add: to_double_def)
next
  case False
  let ?q = "pow2 (max (binary_exponent \<bar>x\<bar>) (- 1022) - 52)"
  have r: "r = of_int (round_half_even (x / ?q)) * ?q"
    using assms(2) False by (rule to_double_Finite)
  have "0 \<le> x / ?q" using assms(1) pow2_pos [of "max (binary_exponent \<bar>x\<bar>) (- 1022) - 52"]
    by simp
  then have "0 \<le> round_half_even (x / ?q)" by (rule round_half_even_nonneg)
  then have "(0::rat) \<le> of_int (round_half_even (x / ?q))" by simp
  then show ?thesis
    unfolding r using pow2_pos [of "max (binary_exponent \<bar>x\<bar>) (- 1022) - 52"]
    by (simp add: zero_le_mult_iff)
qed

text \<open>
  Rounding to binary64 does not go below a value \<open>m * 2 ^ j\<close> with \<open>m\<close> of at most 53
  bits that the exact result reaches.
\<close>

lemma to_double_ge_dyadic:
  assumes fin: "to_double x = Finite r"
      and le: "of_int m * pow2 j \<le> x"
      and m: "0 < m" "m < 2 ^ 53"
      and j: "- 1074 \<le> j"
  shows "of_int m * pow2 j \<le> r"
proof -
  let ?y = "of_int m * pow2 j :: rat"
  have ypos: "0 < ?y" using m(1) pow2_pos [of j] by simp
  with le have xpos: "0 < x" by simp
  then have x0: "x \<noteq> 0" and ax: "\<bar>x\<bar> = x" by simp_all
  let ?e = "max (binary_exponent x) (- 1022)"
  let ?q = "pow2 (?e - 52)"
  have qpos: "0 < ?q" by (rule pow2_pos)
  have r: "r = of_int (round_half_even (x / ?q)) * ?q"
    using to_double_Finite [OF fin x0] by (simp add: ax)
  have key: "of_int k * ?q \<le> r" if "of_int k * ?q \<le> x" for k
  proof -
    from that qpos have "of_int k \<le> x / ?q" by (simp add: pos_le_divide_eq)
    then have "k \<le> round_half_even (x / ?q)" by (rule round_half_even_ge)
    then have "(of_int k :: rat) \<le> of_int (round_half_even (x / ?q))" by simp
    then show ?thesis unfolding r using qpos by (simp add: mult_right_mono)
  qed
  show ?thesis
  proof (cases "?e - 52 \<le> j")
    case True
    then have "pow2 j = pow2 (j - (?e - 52)) * ?q"
      by (simp add: pow2_add [symmetric])
    also have "pow2 (j - (?e - 52)) = of_int (2 ^ nat (j - (?e - 52)))"
      using True by (simp add: pow2_nat)
    finally have y: "?y = of_int (m * 2 ^ nat (j - (?e - 52))) * ?q"
      by simp
    show ?thesis
      using key [of "m * 2 ^ nat (j - (?e - 52))"] le unfolding y by blast
  next
    case False
    then have big: "j + 53 \<le> ?e" by simp
    with j have "?e = binary_exponent x" by simp
    then have "pow2 ?e \<le> x" using binary_exponent_le [OF xpos] by simp
    moreover have pe: "pow2 ?e = of_int (2 ^ 52) * ?q"
    proof -
      have "pow2 ?e = pow2 52 * ?q" by (simp add: pow2_add [symmetric])
      then show ?thesis by (simp add: pow2_def)
    qed
    ultimately have "pow2 ?e \<le> r" using key [of "2 ^ 52"] by simp
    moreover have "?y \<le> pow2 ?e"
    proof -
      have "(of_int m :: rat) \<le> of_int (2 ^ 53)"
        using m(2) by (simp only: of_int_le_iff)
      then have "?y \<le> of_int (2 ^ 53) * pow2 j"
        using pow2_pos [of j] by (simp add: mult_right_mono)
      also have "\<dots> = pow2 (53 + j)"
        by (simp add: pow2_add) (simp add: pow2_def)
      also have "\<dots> \<le> pow2 ?e" using big by (intro pow2_mono) simp
      finally show ?thesis .
    qed
    ultimately show ?thesis by simp
  qed
qed

lemma py_truediv_Inr:
  "py_truediv a b = Inr q \<Longrightarrow> b \<noteq> 0 \<and> to_double (of_int a / of_int b) = Finite q"
  by (simp add: py_truediv_def split: if_splits pyfloat.splits)

lemma percentage_of_Inr:
  "percentage_of c t = Inr v \<longleftrightarrow>
     (\<exists>q r. py_truediv (int c) (int t) = Inr q \<and> py_round (py_float_mul q 100) = Inr r \<and>
            v = min 99 r)"
  by (auto simp: percentage_of_def split: sum.splits)

lemma py_round_Inr: "py_round f = Inr r \<Longrightarrow> \<exists>x. f = Finite x \<and> r = round_half_even x"
  by (cases f) simp_all

lemma percentage_of_range:
  assumes "percentage_of c t = Inr v"
  shows "0 \<le> v \<and> v \<le> 99"
proof -
  from assms obtain q r where
    q: "py_truediv (int c) (int t) = Inr q" and
    r: "py_round (py_float_mul q 100) = Inr r" and v: "v = min 99 r"
    by (auto simp: percentage_of_Inr)
  from q have t: "int t \<noteq> 0" and dq: "to_double (of_int (int c) / of_int (int t)) = Finite q"
    using py_truediv_Inr by blast+
  have "0 \<le> q" by (rule to_double_nonneg [OF _ dq]) simp
  from r obtain x where x: "py_float_mul q 100 = Finite x" and rx: "r = round_half_even x"
    using py_round_Inr by blast
  have x': "to_double (q * 100) = Finite x" using x by (simp add: py_float_mul_def)
  have "0 \<le> q * 100" using \<open>0 \<le> q\<close> by simp
  then have "0 \<le> x" using x' by (rule to_double_nonneg)
  then have "0 \<le> r" unfolding rx by (rule round_half_even_nonneg)
  with v show ?thesis by simp
qed

lemma percentage_of_clamped:
  assumes "percentage_of c t = Inr v" and "0 < t" and "t \<le> c"
  shows "v = 99"
proof -
  from assms(1) obtain q r where
    q: "py_truediv (int c) (int t) = Inr q" and
    r: "py_round (py_float_mul q 100) = Inr r" and v: "v = min 99 r"
    by (auto simp: percentage_of_Inr)
  from q have dq: "to_double (of_int (int c) / of_int (int t)) = Finite q"
    using py_truediv_Inr by blast
  have "(1::rat) \<le> of_int (int c) / of_int (int t)"
    using assms(2,3) by (simp add: pos_le_divide_eq)
  then have "of_int 1 * pow2 0 \<le> (of_int (int c) / of_int (int t) :: rat)"
    by (simp add: pow2_def)
  from to_double_ge_dyadic [OF dq this] have q1: "1 \<le> q" by (simp add: pow2_def)
  from r obtain x where x: "to_double (q * 100) = Finite x" and rx: "r = round_half_even x"
    using py_round_Inr unfolding py_float_mul_def by blast
  have "of_int 25 * pow2 2 \<le> q * 100" using q1 by (simp add: pow2_def)
  from to_double_ge_dyadic [OF x this] have "100 \<le> x" by (simp add: pow2_def)
  then have "of_int 100 \<le> x" by simp
  then have "100 \<le> r" unfolding rx by (rule round_half_even_ge)
  with v show ?thesis by simp
qed


text \<open>The values of CPython for the same arguments.\<close>

lemma percentage_samples:
  "map (\<lambda>(c, t). percentage_of c t)
     [(1, 200), (3, 200), (1, 3), (2, 3), (7, 100), (29, 50), (0, 5), (5, 5), (7, 5),
      (199, 200), (197, 200), (23, 40)] =
   map Inr [0, 2, 33, 67, 7, 58, 0, 99, 99, 99, 98, 57]"
  by code_simp

subsection \<open>The example run\<close>

lemma demo_percentages:
  "map (map_option percentage \<circ> progress) (states (run_sync_background demo_world initial_state)) =
     [Some 0, Some 50, Some 99, Some 99, Some 99, None]"
  by code_simp

lemma demo_final:
  "final_state initial_state (run_sync_background demo_world initial_state) =
     \<lparr>is_running = False, progress = None,
      last_sync = Some \<lparr>status = ''success'', message = ''Sync completed'',
                        timestamp = ''2024-01-01T10:00:05'', files_transferred = 2,
                        warnings = None\<rparr>\<rparr>"
  by code_simp

lemma uncounted_percentages:
  "map (map_option percentage \<circ> progress)
       (states (run_sync_background uncounted_world initial_state)) =
     [Some 0, Some 0, Some 0, Some 0, Some 0, None]"
  by code_simp

subsection \<open>State consistency\<close>

text \<open>
  Claim C4: the initial state has \<^verbatim>\<open>is_running\<close> set exactly when the progress
  dictionary is present, every block under the lock keeps that, so it holds in every
  state reachable from the initial one by any number of locked blocks of any jobs, and
  in every state a run of the job stores; the states a run stores follow one another
  by locked blocks.
\<close>

theorem state_consistency:
  "consistent initial_state \<and>
   (\<forall>s s'. consistent s \<and> locked_step s s' \<longrightarrow> consistent s') \<and>
   (\<forall>s. locked_step\<^sup>*\<^sup>* initial_state s \<longrightarrow> consistent s) \<and>
   (\<forall>w s. \<forall>s' \<in> set (states (run_sync_background w s)). consistent s') \<and>
   (\<forall>w s. successively locked_step (s # states (run_sync_background w s)))"
proof -
  have init: "consistent initial_state"
    by (simp add: consistent_def initial_state_def)
  have run: "consistent s'" if "s' \<in> set (states (run_sync_background w s))" for w s s'
    using that
    by (rule run_states_invariant [where I = consistent, rotated 3])
       (simp_all add: consistent_set_running consistent_update_progress
          consistent_set_last_sync)
  from init run run_steps show ?thesis
    by (blast intro: consistent_locked_step consistent_reachable)
qed

theorem state_consistency_witness:
  "consistent initial_state \<and> locked_step initial_state running_state \<and>
   locked_step\<^sup>*\<^sup>* initial_state running_state \<and> consistent running_state \<and>
   is_running running_state \<and>
   length (states (run_sync_background demo_world initial_state)) = 6 \<and>
   list_all consistent (states (run_sync_background demo_world initial_state))"
proof -
  have step: "locked_step initial_state running_state"
    unfolding running_state_def by (rule step_running)
  then have reach: "locked_step\<^sup>*\<^sup>* initial_state running_state" by (rule r_into_rtranclp)
  have len: "length (states (run_sync_background demo_world initial_state)) = 6"
    using arg_cong [OF demo_percentages, of length] by simp
  have run: "is_running running_state" by (simp add: running_state_def set_running_def)
  from state_consistency step reach len run show ?thesis
    by (simp add: list_all_iff)
qed

subsection \<open>The percentage\<close>

lemma percentage_in_range_set_running: "percentage_in_range (set_running now n s)"
  by (simp add: percentage_in_range_def set_running_def)

lemma percentage_in_range_set_last_sync: "percentage_in_range (set_last_sync r s)"
  by (simp add: percentage_in_range_def set_last_sync_def)

lemma percentage_in_range_update_progress:
  "percentage_in_range s \<Longrightarrow> percentage_in_range (snd (update_progress l c t s))"
  using percentage_of_range [of c t]
  by (auto simp: percentage_in_range_def update_progress_def Let_def
           split: option.splits sum.splits)

lemma percentage_in_range_locked_step:
  "locked_step s s' \<Longrightarrow> percentage_in_range s \<Longrightarrow> percentage_in_range s'"
  by (induction rule: locked_step.induct)
     (simp_all add: percentage_in_range_set_running percentage_in_range_set_last_sync
        percentage_in_range_update_progress)

lemma percentage_in_range_run:
  "s' \<in> set (states (run_sync_background w s)) \<Longrightarrow> percentage_in_range s'"
  by (rule run_states_invariant [where I = percentage_in_range, rotated 3])
     (simp_all add: percentage_in_range_set_running percentage_in_range_set_last_sync
        percentage_in_range_update_progress)

lemma percentage_zero_run:
  assumes "count_source_files (source_rglob w) = 0"
      and "s' \<in> set (states (run_sync_background w s))"
      and "progress s' = Some p"
  shows "percentage p = 0"
proof -
  let ?I = "\<lambda>s. case progress s of None \<Rightarrow> True | Some p \<Rightarrow> percentage p = 0"
  have "?I s'"
    using assms(2)
    by (rule run_states_invariant [where I = ?I, rotated 3])
       (auto simp: assms(1) set_running_def set_last_sync_def update_progress_def
             split: option.splits)
  with assms(3) show ?thesis by simp
qed

lemma update_progress_percentage:
  assumes "progress s = Some p" and "0 < t"
  shows "case percentage_of c t of
           Inr v \<Rightarrow> fst (update_progress l c t s) = None \<and>
                   map_option percentage (progress (snd (update_progress l c t s))) = Some v
         | Inl e \<Rightarrow> fst (update_progress l c t s) = Some e \<and>
                   map_option percentage (progress (snd (update_progress l c t s))) =
                     Some (percentage p)"
  using assms by (simp add: update_progress_def Let_def split: sum.splits)

text \<open>
  Claim C7: a percentage that is computed is \<^verbatim>\<open>min(99, round(files_completed /
  total_files * 100))\<close> in Python's float arithmetic and lies between 0 and 99; it is
  99 whenever \<^verbatim>\<open>files_completed\<close> is at least \<^verbatim>\<open>total_files\<close>. With
  \<^verbatim>\<open>total_files > 0\<close> the locked block stores it (or leaves the field as it was when
  the computation raises). Every locked block keeps the field within 0 and 99, so it
  is there in every state a run stores, and it is 0 in all of them when the run
  counted no source files.
\<close>

theorem percentage_bounds:
  "(\<forall>c t v. percentage_of c t = Inr v \<longrightarrow>
      0 \<le> v \<and> v \<le> 99 \<and>
      (\<exists>q r. py_truediv (int c) (int t) = Inr q \<and>
             py_round (py_float_mul q 100) = Inr r \<and> v = min 99 r) \<and>
      (0 < t \<and> t \<le> c \<longrightarrow> v = 99)) \<and>
   (\<forall>l c t s p. progress s = Some p \<and> 0 < t \<longrightarrow>
      (case percentage_of c t of
         Inr v \<Rightarrow> fst (update_progress l c t s) = None \<and>
                 map_option percentage (progress (snd (update_progress l c t s))) = Some v
       | Inl e \<Rightarrow> fst (update_progress l c t s) = Some e \<and>
                 map_option percentage (progress (snd (update_progress l c t s))) =
                   Some (percentage p))) \<and>
   (\<forall>s s'. percentage_in_range s \<and> locked_step s s' \<longrightarrow> percentage_in_range s') \<and>
   (\<forall>w s. \<forall>s' \<in> set (states (run_sync_background w s)). percentage_in_range s') \<and>
   (\<forall>w s. count_source_files (source_rglob w) = 0 \<longrightarrow>
      (\<forall>s' \<in> set (states (run_sync_background w s)).
         \<forall>p. progress s' = Some p \<longrightarrow> percentage p = 0))"
proof -
  have a: "0 \<le> v \<and> v \<le> 99 \<and>
      (\<exists>q r. py_truediv (int c) (int t) = Inr q \<and>
             py_round (py_float_mul q 100) = Inr r \<and> v = min 99 r) \<and>
      (0 < t \<and> t \<le> c \<longrightarrow> v = 99)" if "percentage_of c t = Inr v" for c t v
    using that percentage_of_range [OF that] percentage_of_clamped [OF that]
    by (simp add: percentage_of_Inr)
  have b: "case percentage_of c t of
         Inr v \<Rightarrow> fst (update_progress l c t s) = None \<and>
                 map_option percentage (progress (snd (update_progress l c t s))) = Some v
       | Inl e \<Rightarrow> fst (update_progress l c t s) = Some e \<and>
                 map_option percentage (progress (snd (update_progress l c t s))) =
                   Some (percentage p)" if "progress s = Some p" "0 < t" for l c t s p
    using that by (rule update_progress_percentage)
  have c: "percentage_in_range s'" if "percentage_in_range s" "locked_step s s'" for s s'
    using that(2,1) by (rule percentage_in_range_locked_step)
  have d: "percentage_in_range s'" if "s' \<in> set (states (run_sync_background w s))" for w s s'
    using that by (rule percentage_in_range_run)
  have e: "percentage p = 0" if "count_source_files (source_rglob w) = 0"
      "s' \<in> set (states (run_sync_background w s))" "progress s' = Some p" for w s s' p
    using that by (rule percentage_zero_run)
  show ?thesis
    apply (intro conjI allI impI ballI)
    subgoal for c t v using a by blast
    subgoal for c t v using a by blast
    subgoal for c t v using a by blast
    subgoal for c t v using a by blast
    subgoal for l c t s p using b by blast
    subgoal for s s' using c by blast
    subgoal for w s s' by (rule d)
    subgoal for w s s' p by (rule e)
    done
qed

theorem percentage_bounds_witness:
  "percentage_of 1 2 = Inr 50 \<and> percentage_of 3 2 = Inr 99 \<and>
   percentage_of 23 40 = Inr 57 \<and>
   map (map_option percentage \<circ> progress)
       (states (run_sync_background demo_world initial_state)) =
     [Some 0, Some 50, Some 99, Some 99, Some 99, None] \<and>
   list_all percentage_in_range (states (run_sync_background demo_world initial_state)) \<and>
   count_source_files (source_rglob uncounted_world) = 0 \<and>
   list_all (\<lambda>s'. progress s' = None \<or> map_option percentage (progress s') = Some 0)
       (states (run_sync_background uncounted_world initial_state)) \<and>
   length (states (run_sync_background uncounted_world initial_state)) = 6"
proof -
  have p1: "percentage_of 1 2 = Inr 50" by code_simp
  have p2: "percentage_of 3 2 = Inr 99" by code_simp
  have p3: "percentage_of 23 40 = Inr 57" by code_simp
  have n0: "count_source_files (source_rglob uncounted_world) = 0"
    by (simp add: uncounted_world_def count_source_files_def)
  have len: "length (states (run_sync_background uncounted_world initial_state)) = 6"
    using arg_cong [OF uncounted_percentages, of length] by simp
  have z: "progress s' = None \<or> map_option percentage (progress s') = Some 0"
    if "s' \<in> set (states (run_sync_background uncounted_world initial_state))" for s'
    using percentage_bounds n0 that by (cases "progress s'") auto
  have r: "percentage_in_range s'"
    if "s' \<in> set (states (run_sync_background demo_world initial_state))" for s'
    using percentage_bounds that by blast
  from p1 p2 p3 n0 len z r demo_percentages show ?thesis
    by (simp add: list_all_iff)
qed

subsection \<open>The current file\<close>

lemma current_file_bounded_run:
  assumes "s' \<in> set (states (run_sync_background w s))"
      and "progress s' = Some p" and "current_file p = Some name"
  shows "length name \<le> 100"
proof -
  let ?I = "\<lambda>s. case progress s of
                   None \<Rightarrow> True
                 | Some p \<Rightarrow> (case current_file p of None \<Rightarrow> True | Some f \<Rightarrow> length f \<le> 100)"
  have "?I s'"
    using assms(1)
    by (rule run_states_invariant [where I = ?I, rotated 3])
       (auto simp: set_running_def set_last_sync_def update_progress_def Let_def
             split: option.splits sum.splits)
  with assms(2,3) show ?thesis by simp
qed

lemma demo_current_files:
  "map (map_option current_file \<circ> progress)
       (states (run_sync_background (demo_world\<lparr>stdout_lines := [long_line]\<rparr>) initial_state)) =
     [Some None, Some (Some (''dir/'' @ replicate 96 CHR ''a'')), None]"
  by code_simp

text \<open>
  Claim C9: for a line that counts as an item, read while the progress dictionary is
  there, the stored \<^verbatim>\<open>current_file\<close> is the stripped line cut to its first 100
  characters; it is never longer than 100, and exactly 100 long when the stripped line
  is longer than that. No state a run stores has a \<^verbatim>\<open>current_file\<close> of more than 100
  characters.
\<close>

theorem current_file_truncated:
  "(\<forall>line s p n_total n_completed.
      counts_as_item (strip line) \<and> progress s = Some p \<longrightarrow>
      (\<exists>e n s' p' name.
         process_line n_total line n_completed s = (e, n, Some s') \<and>
         progress s' = Some p' \<and> current_file p' = Some name \<and>
         name = take 100 (strip line) \<and> length name \<le> 100 \<and>
         (100 < length (strip line) \<longrightarrow> length name = 100))) \<and>
   (\<forall>w s. \<forall>s' \<in> set (states (run_sync_background w s)).
      \<forall>p name. progress s' = Some p \<and> current_file p = Some name \<longrightarrow> length name \<le> 100)"
proof -
  have a: "\<exists>e n s' p' name.
         process_line n_total line n_completed s = (e, n, Some s') \<and>
         progress s' = Some p' \<and> current_file p' = Some name \<and>
         name = take 100 (strip line) \<and> length name \<le> 100 \<and>
         (100 < length (strip line) \<longrightarrow> length name = 100)"
    if item: "counts_as_item (strip line)" and p: "progress s = Some p"
    for line s p n_total n_completed
  proof -
    from p obtain p' where
      p': "progress (snd (update_progress (strip line) (n_completed + 1) n_total s)) = Some p'"
          "current_file p' = Some (take 100 (strip line))"
      using update_progress_current_file by blast
    show ?thesis
      using item p' by (simp add: process_line_item)
  qed
  from a current_file_bounded_run show ?thesis by blast
qed

theorem current_file_truncated_witness:
  "counts_as_item (strip long_line) \<and>
   (\<exists>p. progress running_state = Some p) \<and>
   (\<exists>e n s' p' name.
      process_line 4 long_line 0 running_state = (e, n, Some s') \<and>
      progress s' = Some p' \<and> current_file p' = Some name \<and>
      name = take 100 (strip long_line) \<and> length name = 100) \<and>
   map (map_option current_file \<circ> progress)
       (states (run_sync_background (demo_world\<lparr>stdout_lines := [long_line]\<rparr>) initial_state)) =
     [Some None, Some (Some (''dir/'' @ replicate 96 CHR ''a'')), None] \<and>
   list_all (\<lambda>s'. \<forall>p name. progress s' = Some p \<and> current_file p = Some name \<longrightarrow> length name \<le> 100)
       (states (run_sync_background (demo_world\<lparr>stdout_lines := [long_line]\<rparr>) initial_state))"
proof -
  have a: "counts_as_item (strip long_line)" by code_simp
  have b: "progress running_state =
             Some \<lparr>run_status = ''running'', started_at = ''2024-01-01T10:00:00'',
                   current_file = None, files_completed = 0, total_files = 4,
                   percentage = 0\<rparr>"
    by (simp add: running_state_def set_running_def initial_state_def)
  have c: "100 < length (strip long_line)" by code_simp
  from current_file_truncated a b have
    "\<exists>e n s' p' name.
      process_line 4 long_line 0 running_state = (e, n, Some s') \<and>
      progress s' = Some p' \<and> current_file p' = Some name \<and>
      name = take 100 (strip long_line) \<and> length name \<le> 100 \<and>
      (100 < length (strip long_line) \<longrightarrow> length name = 100)"
    by blast
  with c have d: "\<exists>e n s' p' name.
      process_line 4 long_line 0 running_state = (e, n, Some s') \<and>
      progress s' = Some p' \<and> current_file p' = Some name \<and>
      name = take 100 (strip long_line) \<and> length name = 100"
    by blast
  have e: "list_all (\<lambda>s'. \<forall>p name. progress s' = Some p \<and> current_file p = Some name \<longrightarrow> length name \<le> 100)
       (states (run_sync_background (demo_world\<lparr>stdout_lines := [long_line]\<rparr>) initial_state))"
    unfolding list_all_iff using current_file_truncated by blast
  from a b d e demo_current_files show ?thesis by simp
qed

subsection \<open>Starting a job\<close>

lemma run_first_state:
  "\<exists>tr. states (run_sync_background w s) =
          set_running (now_started w) (count_source_files (source_rglob w)) s # tr"
  by (auto simp: run_sync_background_def job_body_def Let_def
           split: option.splits exn.splits)

lemma locked_step_sets_running:
  assumes "locked_step s s'" and "\<not> is_running s" and "is_running s'"
  shows "\<exists>now n. s' = set_running now n s"
  using assms
proof (induction rule: locked_step.induct)
  case (step_running s now n_total)
  then show ?case by blast
next
  case (step_progress s line_stripped n_completed n_total)
  then show ?case
    by (auto simp: update_progress_def Let_def split: option.splits sum.splits if_splits)
next
  case (step_last_sync s r)
  then show ?case by (simp add: set_last_sync_def)
qed

text \<open>
  Claim C10: \<^verbatim>\<open>sync_folders\<close> leaves the shared state as it found it on every path.
  On the path that succeeds it only schedules the job body, so the state right after
  the acknowledgement still has \<^verbatim>\<open>is_running\<close> unset. Among the locked blocks only
  the first one of the job body turns \<^verbatim>\<open>is_running\<close> on, and that block is the first
  state every run of the job stores.
\<close>

theorem start_never_mutates:
  "snd (snd (sync_folders w s background_tasks)) = s \<and>
   (\<not> is_running s \<and> rsync_installed w \<and> source_exists w \<longrightarrow>
      sync_folders w s background_tasks =
        (Inr \<lparr>response_status = ''started'',
              response_message = ''Sync started in background'',
              response_timestamp = now_request w,
              source_path = source_dir w,
              destination_path = destination_dir w\<rparr>,
         background_tasks @ [RunSyncBackground], s) \<and>
      \<not> is_running (snd (snd (sync_folders w s background_tasks)))) \<and>
   (\<forall>s'. locked_step s s' \<and> \<not> is_running s \<and> is_running s' \<longrightarrow>
      (\<exists>now n. s' = set_running now n s)) \<and>
   (\<exists>tr. states (run_sync_background w s) =
          set_running (now_started w) (count_source_files (source_rglob w)) s # tr)"
proof -
  have a: "snd (snd (sync_folders w s background_tasks)) = s"
    by (simp add: sync_folders_def)
  have b: "sync_folders w s background_tasks =
        (Inr \<lparr>response_status = ''started'',
              response_message = ''Sync started in background'',
              response_timestamp = now_request w,
              source_path = source_dir w,
              destination_path = destination_dir w\<rparr>,
         background_tasks @ [RunSyncBackground], s)"
    if "\<not> is_running s" "rsync_installed w" "source_exists w"
    using that by (simp add: sync_folders_def)
  from a b locked_step_sets_running [of s] run_first_state [of w s] show ?thesis
    by (simp only: a) blast
qed

theorem start_never_mutates_witness:
  "\<not> is_running initial_state \<and> rsync_installed demo_world \<and> source_exists demo_world \<and>
   sync_folders demo_world initial_state [] =
     (Inr \<lparr>response_status = ''started'',
           response_message = ''Sync started in background'',
           response_timestamp = ''2024-01-01T09:59:59'',
           source_path = ''/data/source'',
           destination_path = ''/data/destination''\<rparr>,
      [RunSyncBackground], initial_state) \<and>
   \<not> is_running (snd (snd (sync_folders demo_world initial_state []))) \<and>
   locked_step initial_state running_state \<and> is_running running_state"
proof -
  have h: "\<not> is_running initial_state" "rsync_installed demo_world" "source_exists demo_world"
    by (simp_all add: initial_state_def demo_world_def)
  have step: "locked_step initial_state running_state"
    unfolding running_state_def by (rule step_running)
  have run: "is_running running_state" by (simp add: running_state_def set_running_def)
  from start_never_mutates [of demo_world initial_state "[]"] h step run show ?thesis
    by (simp add: demo_world_def)
qed

subsection \<open>How a run ends\<close>

lemma final_state_run_raised:
  "raised (job_body w s) = Some e \<Longrightarrow> is_exception e \<Longrightarrow>
   final_state s (run_sync_background w s) =
     set_last_sync \<lparr>status = ''failed'', message = exn_text e, timestamp = now_finished w,
                    files_transferred = 0, warnings = None\<rparr>
       (final_state s (job_body w s))"
  by (simp add: run_sync_background_def Let_def final_state_def)

lemma final_state_run_returned:
  "raised (job_body w s) = None \<Longrightarrow>
   final_state s (run_sync_background w s) = final_state s (job_body w s)"
  by (simp add: run_sync_background_def Let_def)



lemma sync_with_rsync_returned:
  "raised (sync_with_rsync w n s1) = None \<Longrightarrow>
   \<exists>r. last (s1 # states (sync_with_rsync w n s1)) = set_last_sync r (last (s1 # snd (stream_stdout n (stdout_lines w) 0 s1)))"
  by (auto simp: sync_with_rsync_def Let_def split: option.splits prod.splits sum.splits)

lemma job_body_returned:
  "raised (job_body w s) = None \<Longrightarrow> \<exists>r x. final_state s (job_body w s) = set_last_sync r x"
proof -
  assume a: "raised (job_body w s) = None"
  let ?n = "count_source_files (source_rglob w)"
  let ?s1 = "set_running (now_started w) ?n s"
  show ?thesis
  proof (cases "rsync_installed w \<and> source_exists w \<and> \<not> source_empty w")
    case False
    with a show ?thesis
      by (auto simp: job_body_def Let_def final_state_def split: if_splits)
  next
    case True
    with a have r: "raised (sync_with_rsync w ?n ?s1) = None"
      and st: "states (job_body w s) = ?s1 # states (sync_with_rsync w ?n ?s1)"
      by (auto simp: job_body_def Let_def split: option.splits exn.splits if_splits)
    from sync_with_rsync_returned [OF r] obtain x where
      "last (?s1 # states (sync_with_rsync w ?n ?s1)) =
         set_last_sync x (last (?s1 # snd (stream_stdout ?n (stdout_lines w) 0 ?s1)))"
      by blast
    then show ?thesis unfolding final_state_def st by auto
  qed
qed

lemma run_ends_idle:
  assumes "raised (job_body w s) = None \<or> (\<exists>e. raised (job_body w s) = Some e \<and> is_exception e)"
  shows "\<not> is_running (final_state s (run_sync_background w s)) \<and>
         progress (final_state s (run_sync_background w s)) = None"
proof (cases "raised (job_body w s)")
  case None
  from job_body_returned [OF None] obtain r x where
    "final_state s (job_body w s) = set_last_sync r x" by blast
  with None show ?thesis
    by (simp add: final_state_run_returned set_last_sync_def)
next
  case (Some e)
  with assms have "is_exception e" by simp
  with Some show ?thesis by (simp add: final_state_run_raised set_last_sync_def)
qed






text \<open>The exceptions that leave the \<^verbatim>\<open>try\<close> block, by the place that raises them.\<close>

lemma job_body_raise_sites:
  "raised (job_body w s) = Some e \<longleftrightarrow>
     (\<not> rsync_installed w \<and> e = Exception ''rsync not installed'') \<or>
     (rsync_installed w \<and> \<not> source_exists w \<and>
        e = Exception (''Source not found: '' @ source_dir w)) \<or>
     (rsync_installed w \<and> source_exists w \<and> listing_escapes w = Some e) \<or>
     (rsync_installed w \<and> source_exists w \<and> listing_escapes w = None \<and> \<not> source_empty w \<and>
        (mkdir_raises w = Some e \<or>
         mkdir_raises w = None \<and>
           ((\<exists>m. write_test_raises w = Some (PermissionError m)) \<and>
              e = Exception (''Cannot write to destination: '' @ destination_dir w) \<or>
            write_test_raises w = Some e \<and> (\<forall>m. e \<noteq> PermissionError m) \<or>
            write_test_raises w = None \<and>
              (free_gb w < 1 / 2 \<and>
                 e = Exception (''Low disk space: only '' @ free_gb_text w @ ''GB free'') \<or>
               \<not> free_gb w < 1 / 2 \<and>
                 raised (sync_with_rsync w (count_source_files (source_rglob w))
                    (set_running (now_started w) (count_source_files (source_rglob w)) s)) =
                   Some e))))"
  by (auto simp: job_body_def Let_def split: option.splits exn.splits)




text \<open>
  Claim C6, as amended: when rsync is installed, the source directory exists and its
  listing has no entry, the run ends without an exception and without starting a
  child process, \<^verbatim>\<open>is_running\<close> unset, no progress dictionary, and the result
  "success" with no files transferred and the one warning "Source directory is empty".
\<close>

theorem empty_source_short_circuit:
  assumes "rsync_installed w" and "source_exists w" and "source_iterdir w = Inr []"
  shows "raised (run_sync_background w s) = None \<and>
         launched (run_sync_background w s) = [] \<and>
         final_state s (run_sync_background w s) =
           s\<lparr>is_running := False, progress := None,
             last_sync := Some \<lparr>status = ''success'',
                                message = ''Source is empty - nothing to sync'',
                                timestamp = now_finished w, files_transferred = 0,
                                warnings = Some [''Source directory is empty'']\<rparr>\<rparr>"
  using assms
  by (simp add: run_sync_background_def job_body_def source_empty_def listing_escapes_def
        final_state_def set_last_sync_def set_running_def Let_def)

theorem empty_source_short_circuit_witness:
  "rsync_installed empty_source_world \<and> source_exists empty_source_world \<and>
   source_iterdir empty_source_world = Inr [] \<and>
   raised (run_sync_background empty_source_world initial_state) = None \<and>
   launched (run_sync_background empty_source_world initial_state) = [] \<and>
   final_state initial_state (run_sync_background empty_source_world initial_state) =
     \<lparr>is_running = False, progress = None,
      last_sync = Some \<lparr>status = ''success'',
                        message = ''Source is empty - nothing to sync'',
                        timestamp = ''2024-01-01T10:00:05'', files_transferred = 0,
                        warnings = Some [''Source directory is empty'']\<rparr>\<rparr>"
proof -
  have h: "rsync_installed empty_source_world" "source_exists empty_source_world"
      "source_iterdir empty_source_world = Inr []"
    by (simp_all add: empty_source_world_def demo_world_def)
  from empty_source_short_circuit [OF h, of initial_state] h show ?thesis
    by (simp add: initial_state_def empty_source_world_def demo_world_def)
qed

text \<open>
  Claim C6 as stated fails when rsync is not installed: the check of line 133 comes
  before the look at the source directory, and the run of an existing, empty source
  ends with the status "failed".
\<close>

theorem empty_source_without_rsync:
  "source_exists (empty_source_world\<lparr>rsync_installed := False\<rparr>) \<and>
   source_iterdir (empty_source_world\<lparr>rsync_installed := False\<rparr>) = Inr [] \<and>
   launched (run_sync_background (empty_source_world\<lparr>rsync_installed := False\<rparr>) initial_state) = [] \<and>
   last_sync (final_state initial_state
       (run_sync_background (empty_source_world\<lparr>rsync_installed := False\<rparr>) initial_state)) =
     Some \<lparr>status = ''failed'', message = ''rsync not installed'',
           timestamp = ''2024-01-01T10:00:05'', files_transferred = 0, warnings = None\<rparr>"
  by code_simp

subsection \<open>The exit code of rsync\<close>

lemma contains_sublist: "contains needle hay \<longleftrightarrow> sublist needle hay"
  by (induction hay) (simp_all add: sublist_Cons_right)

lemma sublist_map_iff: "sublist ys (map f xs) \<longleftrightarrow> (\<exists>mid. sublist mid xs \<and> map f mid = ys)"
proof
  assume "sublist ys (map f xs)"
  then obtain ps ss where "map f xs = ps @ ys @ ss" by (auto simp: sublist_def)
  then have "\<exists>us r. xs = us @ r \<and> map f r = ys @ ss"
    by (metis map_eq_append_conv)
  then obtain us r where r: "xs = us @ r" "map f r = ys @ ss" by blast
  from r(2) have "\<exists>vs ws. r = vs @ ws \<and> map f vs = ys"
    by (metis map_eq_append_conv)
  then obtain vs ws where "r = vs @ ws" "map f vs = ys" by blast
  with r(1) have "xs = us @ vs @ ws" "map f vs = ys" by simp_all
  then show "\<exists>mid. sublist mid xs \<and> map f mid = ys" by (auto simp: sublist_def)
next
  assume "\<exists>mid. sublist mid xs \<and> map f mid = ys"
  then obtain mid ps ss where "xs = ps @ mid @ ss" "map f mid = ys"
    by (auto simp: sublist_def)
  then have "map f xs = map f ps @ ys @ map f ss" by simp
  then show "sublist ys (map f xs)" unfolding sublist_def by blast
qed

lemma lower_literal: "lower ''no space left'' = ''no space left''"
  by code_simp

lemma contains_lower_generic:
  assumes "lower needle = needle"
  shows "contains needle (lower hay) \<longleftrightarrow> contains_ignoring_case needle hay"
proof -
  have "contains needle (lower hay) \<longleftrightarrow> (\<exists>mid. sublist mid hay \<and> map lower_char mid = needle)"
    by (simp only: contains_sublist lower_def sublist_map_iff)
  also have "\<dots> \<longleftrightarrow> (\<exists>pre mid post. hay = pre @ mid @ post \<and> lower mid = lower needle)"
    unfolding sublist_def assms lower_def [of "_ :: string", symmetric] by blast
  finally show ?thesis by (simp only: contains_ignoring_case_def)
qed

lemma contains_lower_iff:
  "contains ''no space left'' (lower hay) \<longleftrightarrow> contains_ignoring_case ''no space left'' hay"
  using lower_literal by (rule contains_lower_generic)

lemma digit_char_is_digit: "d < 10 \<Longrightarrow> is_digit (digit_char d) \<and> digit_value (digit_char d) = int d"
proof -
  assume "d < 10"
  then have "d \<in> {0, 1, 2, 3, 4, 5, 6, 7, 8, 9}" by auto
  then show ?thesis
    by (auto simp: digit_char_def is_digit_def digit_value_def)
qed

declare str_nat.simps [simp del]

lemma parse_digits_str_nat:
  "parse_digits (str_nat n @ rest) acc b = parse_digits rest (acc * 10 ^ length (str_nat n) + int n) True"
proof (induction n arbitrary: rest acc b rule: str_nat.induct)
  case (1 n)
  show ?case
  proof (cases "n < 10")
    case True
    then show ?thesis
      using digit_char_is_digit [OF True] by (subst (1 2) str_nat.simps) (simp add: mult.commute)
  next
    case False
    have d: "is_digit (digit_char (n mod 10))" "digit_value (digit_char (n mod 10)) = int (n mod 10)"
      using digit_char_is_digit [of "n mod 10"] by simp_all
    have s: "str_nat n = str_nat (n div 10) @ [digit_char (n mod 10)]"
      using False by (subst str_nat.simps) simp
    have "parse_digits (str_nat n @ rest) acc b =
          parse_digits (digit_char (n mod 10) # rest)
            (acc * 10 ^ length (str_nat (n div 10)) + int (n div 10)) True"
      unfolding s using "1.IH" [OF False] by simp
    also have "\<dots> = parse_digits rest
        (10 * (acc * 10 ^ length (str_nat (n div 10)) + int (n div 10)) + int (n mod 10)) True"
      using d by simp
    also have "10 * (acc * 10 ^ length (str_nat (n div 10)) + int (n div 10)) + int (n mod 10) =
        acc * 10 ^ length (str_nat n) + int n"
    proof -
      have "int n = 10 * int (n div 10) + int (n mod 10)"
        by (metis mult_div_mod_eq of_nat_add of_nat_mult of_nat_numeral)
      then show ?thesis unfolding s by (simp add: algebra_simps)
    qed
    finally show ?thesis .
  qed
qed

lemma str_nat_Cons: "\<exists>c cs. str_nat n = c # cs \<and> is_digit c"
proof (induction n rule: str_nat.induct)
  case (1 n)
  show ?case
  proof (cases "n < 10")
    case True
    then show ?thesis using digit_char_is_digit [OF True] by (subst str_nat.simps) simp
  next
    case False
    from "1.IH" [OF False] obtain c cs where "str_nat (n div 10) = c # cs" "is_digit c" by blast
    then show ?thesis using False by (subst str_nat.simps) simp
  qed
qed

lemma not_digit_signs: "\<not> is_digit CHR ''-''" "\<not> is_digit CHR ''+''"
  by (simp_all add: is_digit_def)

lemma py_int_str_int: "py_int (str_int i) = Some i"
proof (cases "i < 0")
  case True
  have "parse_digits (str_nat (nat (- i)) @ []) 0 False = Some (int (nat (- i)))"
    by (subst parse_digits_str_nat) simp
  with True show ?thesis by (simp add: py_int_def str_int_def)
next
  case False
  obtain c cs where c: "str_nat (nat i) = c # cs" "is_digit c"
    using str_nat_Cons by blast
  then have nc: "c \<noteq> CHR ''-''" "c \<noteq> CHR ''+''" using not_digit_signs by auto
  have "parse_digits (str_nat (nat i) @ []) 0 False = Some (int (nat i))"
    by (subst parse_digits_str_nat) simp
  then have "parse_digits (c # cs) 0 False = Some i" using False c by simp
  with False c nc show ?thesis by (simp add: py_int_def str_int_def del: parse_digits.simps)
qed

lemma sync_with_rsync_result:
  assumes "popen_raises w = None" and "fst (stream_stdout n (stdout_lines w) 0 s1) = None"
      and "stdout_raises w = None" and "stderr_read w = Inr err"
  shows "last_sync (last (s1 # states (sync_with_rsync w n s1))) =
     Some \<lparr>status = fst (classify_outcome (returncode w) err []),
           message = fst (snd (classify_outcome (returncode w) err [])),
           timestamp = now_finished w,
           files_transferred = extract_transferred (concat (stdout_lines w) @ err),
           warnings = (if snd (snd (classify_outcome (returncode w) err [])) \<noteq> []
                       then Some (snd (snd (classify_outcome (returncode w) err []))) else None)\<rparr>"
proof -
  obtain tr where tr: "stream_stdout n (stdout_lines w) 0 s1 = (None, tr)"
    using assms(2) by (cases "stream_stdout n (stdout_lines w) 0 s1") simp
  show ?thesis
    using assms(1,3,4) tr
    by (simp add: sync_with_rsync_def Let_def set_last_sync_def split: prod.splits)
qed

lemma sync_with_rsync_returned_cases:
  assumes "raised (sync_with_rsync w n s1) = None"
  shows "popen_raises w = None \<and> fst (stream_stdout n (stdout_lines w) 0 s1) = None \<and>
         stdout_raises w = None \<and> (\<exists>err. stderr_read w = Inr err)"
  using assms
  by (auto simp: sync_with_rsync_def Let_def split: option.splits prod.splits sum.splits)

lemma run_result_classified:
  assumes "raised (job_body w s) = None" and "\<not> source_empty w"
  shows "\<exists>err. stderr_read w = Inr err \<and>
     last_sync (final_state s (run_sync_background w s)) =
       Some \<lparr>status = fst (classify_outcome (returncode w) err []),
             message = fst (snd (classify_outcome (returncode w) err [])),
             timestamp = now_finished w,
             files_transferred = extract_transferred (concat (stdout_lines w) @ err),
             warnings = (if snd (snd (classify_outcome (returncode w) err [])) \<noteq> []
                         then Some (snd (snd (classify_outcome (returncode w) err [])))
                         else None)\<rparr>"
proof -
  let ?n = "count_source_files (source_rglob w)"
  let ?s1 = "set_running (now_started w) ?n s"
  from assms have r: "raised (sync_with_rsync w ?n ?s1) = None"
    and st: "states (job_body w s) = ?s1 # states (sync_with_rsync w ?n ?s1)"
    by (auto simp: job_body_def Let_def split: option.splits exn.splits if_splits)
  from sync_with_rsync_returned_cases [OF r] obtain err where
    c: "popen_raises w = None" "fst (stream_stdout ?n (stdout_lines w) 0 ?s1) = None"
       "stdout_raises w = None" "stderr_read w = Inr err"
    by blast
  have "final_state s (run_sync_background w s) =
        last (?s1 # states (sync_with_rsync w ?n ?s1))"
    using assms(1) st by (simp add: final_state_run_returned) (simp add: final_state_def)
  with sync_with_rsync_result [OF c] c(4) show ?thesis by simp
qed

lemma disk_full_final:
  "last_sync (final_state initial_state (run_sync_background disk_full_world initial_state)) =
     Some \<lparr>status = ''failed'', message = ''Disk full'', timestamp = ''2024-01-01T10:00:05'',
           files_transferred = 2, warnings = None\<rparr>"
  by code_simp

lemma disk_full_returned:
  "raised (job_body disk_full_world initial_state) = None \<and> \<not> source_empty disk_full_world"
  by code_simp

text \<open>
  Claim C2: for every exit code and text of stderr, status and message are those of
  the table of the specification, with "Disk full" for exit code 11 exactly when stderr
  contains "no space left" in any case of letters, a warning appended for 23 and 24,
  and the exit code in decimal (a text that \<^verbatim>\<open>int\<close> reads back as the exit code) in
  the message of every other code. A run that starts rsync and returns stores that
  status and message, and the warnings if there are any.
\<close>

theorem outcome_table:
  "classify_outcome rc err ws =
     (if rc = 0 then (''success'', ''Sync completed'', ws)
      else if rc = 3 then (''failed'', ''Permission denied'', ws)
      else if rc = 11
        then (''failed'',
              if contains_ignoring_case ''no space left'' err then ''Disk full''
              else ''Disk I/O error'', ws)
      else if rc = 23
        then (''warning'', ''Partial transfer - some files failed'', ws @ [''Some files had errors''])
      else if rc = 24
        then (''warning'', ''Files vanished during sync'',
              ws @ [''Some files were deleted during sync''])
      else (''failed'', ''Rsync failed with code '' @ str_int rc, ws)) \<and>
   py_int (str_int rc) = Some rc \<and>
   classify_outcome 99 err ws = (''failed'', ''Rsync failed with code 99'', ws) \<and>
   classify_outcome 11 ''rsync: write failed: No space left on device (28)'' ws =
     (''failed'', ''Disk full'', ws) \<and>
   classify_outcome 11 ''rsync: read errors mapping /data/a: Input/output error (5)'' ws =
     (''failed'', ''Disk I/O error'', ws) \<and>
   (\<forall>w s. raised (job_body w s) = None \<and> \<not> source_empty w \<longrightarrow>
      (\<exists>e. stderr_read w = Inr e \<and>
         map_option (\<lambda>r. (status r, message r, warnings r))
             (last_sync (final_state s (run_sync_background w s))) =
           Some (case classify_outcome (returncode w) e [] of
                   (st, msg, ws') \<Rightarrow> (st, msg, if ws' \<noteq> [] then Some ws' else None))))"
proof -
  have e: "\<exists>e. stderr_read w = Inr e \<and>
         map_option (\<lambda>r. (status r, message r, warnings r))
             (last_sync (final_state s (run_sync_background w s))) =
           Some (case classify_outcome (returncode w) e [] of
                   (st, msg, ws') \<Rightarrow> (st, msg, if ws' \<noteq> [] then Some ws' else None))"
    if "raised (job_body w s) = None" "\<not> source_empty w" for w s
    using run_result_classified [OF that] by (auto split: prod.splits)
  have a: "classify_outcome rc err ws =
     (if rc = 0 then (''success'', ''Sync completed'', ws)
      else if rc = 3 then (''failed'', ''Permission denied'', ws)
      else if rc = 11
        then (''failed'',
              if contains_ignoring_case ''no space left'' err then ''Disk full''
              else ''Disk I/O error'', ws)
      else if rc = 23
        then (''warning'', ''Partial transfer - some files failed'', ws @ [''Some files had errors''])
      else if rc = 24
        then (''warning'', ''Files vanished during sync'',
              ws @ [''Some files were deleted during sync''])
      else (''failed'', ''Rsync failed with code '' @ str_int rc, ws))"
    by (simp add: classify_outcome_def Let_def contains_lower_iff del: contains.simps)
  have b: "classify_outcome 99 err ws = (''failed'', ''Rsync failed with code 99'', ws)"
  proof -
    have "str_int 99 = ''99''" by code_simp
    then show ?thesis by (simp add: classify_outcome_def Let_def)
  qed
  have c: "contains ''no space left'' (lower ''rsync: write failed: No space left on device (28)'')"
    by code_simp
  have d: "\<not> contains ''no space left''
       (lower ''rsync: read errors mapping /data/a: Input/output error (5)'')"
    by code_simp
  have f: "classify_outcome 11 ''rsync: write failed: No space left on device (28)'' ws =
     (''failed'', ''Disk full'', ws)"
    using c by (simp add: classify_outcome_def Let_def del: contains.simps)
  have g: "classify_outcome 11 ''rsync: read errors mapping /data/a: Input/output error (5)'' ws =
     (''failed'', ''Disk I/O error'', ws)"
    using d by (simp add: classify_outcome_def Let_def del: contains.simps)
  from a b f g e py_int_str_int [of rc] show ?thesis by blast
qed

theorem outcome_table_witness:
  "raised (job_body disk_full_world initial_state) = None \<and> \<not> source_empty disk_full_world \<and>
   returncode disk_full_world = 11 \<and>
   (\<exists>e. stderr_read disk_full_world = Inr e \<and> contains_ignoring_case ''no space left'' e \<and>
        classify_outcome 11 e [] = (''failed'', ''Disk full'', [])) \<and>
   map_option (\<lambda>r. (status r, message r, warnings r))
      (last_sync (final_state initial_state (run_sync_background disk_full_world initial_state))) =
     Some (''failed'', ''Disk full'', None)"
proof -
  note h = disk_full_returned
  have rc: "returncode disk_full_world = 11"
    by (simp add: disk_full_world_def)
  from outcome_table [of 11 _ "[]"] h obtain e where
    e: "stderr_read disk_full_world = Inr e"
       "map_option (\<lambda>r. (status r, message r, warnings r))
          (last_sync (final_state initial_state (run_sync_background disk_full_world initial_state))) =
        Some (case classify_outcome (returncode disk_full_world) e [] of
                (st, msg, ws') \<Rightarrow> (st, msg, if ws' \<noteq> [] then Some ws' else None))"
    by blast
  from e(2) disk_full_final have c: "classify_outcome 11 e [] = (''failed'', ''Disk full'', [])"
    unfolding rc by (auto split: prod.splits if_splits)
  with outcome_table [of 11 e "[]"] have ci: "contains_ignoring_case ''no space left'' e"
    by (auto split: if_splits)
  from h rc e c ci disk_full_final show ?thesis by auto
qed

subsection \<open>The count of transferred files\<close>

lemma scan_transferred_spec:
  "scan_transferred ls n =
     (let vs = List.map_filter
                 (\<lambda>line. case parse_transferred line of Inr v \<Rightarrow> Some v | Inl e \<Rightarrow> None)
                 (filter (contains ''Number of regular files transferred:'') ls)
      in if vs = [] then n else last vs)"
proof (induction ls arbitrary: n)
  case Nil
  then show ?case by (simp add: List.map_filter_simps)
next
  case (Cons line rest)
  show ?case
  proof (cases "contains ''Number of regular files transferred:'' line")
    case False
    then show ?thesis using Cons.IH [of n] by (simp del: contains.simps)
  next
    case True
    show ?thesis
    proof (cases "parse_transferred line")
      case (Inl e)
      with True show ?thesis
        using Cons.IH [of n] by (simp add: List.map_filter_simps del: contains.simps)
    next
      case (Inr v)
      with True show ?thesis
        using Cons.IH [of v] by (simp add: List.map_filter_simps Let_def del: contains.simps)
    qed
  qed
qed

lemma split_on_Cons: "\<exists>seg segs. split_on sep s = seg # segs"
  by (induction s) (auto split: list.splits)

lemma split_on_two_parts:
  "sep \<in> set s \<Longrightarrow> \<exists>p0 p1 ps. split_on sep s = p0 # p1 # ps"
proof (induction s)
  case Nil
  then show ?case by simp
next
  case (Cons c cs)
  show ?case
  proof (cases "c = sep")
    case True
    then show ?thesis using split_on_Cons [of sep cs] by auto
  next
    case False
    with Cons.prems have "sep \<in> set cs" by simp
    from Cons.IH [OF this] False show ?thesis by auto
  qed
qed

lemma label_has_colon:
  assumes "contains ''Number of regular files transferred:'' line"
  shows "CHR '':'' \<in> set line"
proof -
  from assms obtain ps ss where "line = ps @ ''Number of regular files transferred:'' @ ss"
    unfolding contains_sublist sublist_def by blast
  then show ?thesis by simp
qed

lemma label_line_no_index_error:
  assumes "contains ''Number of regular files transferred:'' line"
  shows "parse_transferred line \<noteq> Inl (IndexError m)"
proof -
  from split_on_two_parts [OF label_has_colon [OF assms]] obtain p0 p1 ps where
    "split_on CHR '':'' line = p0 # p1 # ps" by blast
  then show ?thesis by (simp add: parse_transferred_def split: option.splits)
qed

lemma summary_counts: "parsed_counts summary_output = [5, 7]"
  by code_simp

text \<open>
  Claim C8: the count extracted from the output is the last of the counts that parse,
  and 0 when there is none; in particular it is 0 when no line has the label. In the
  loop a line with the label whose value parses replaces the count so far, and a line
  without the label, or with a value that does not parse, leaves it as it is.
\<close>

theorem transferred_count_last_parsed:
  "extract_transferred output =
     (if parsed_counts output = [] then 0 else last (parsed_counts output)) \<and>
   ((\<forall>line \<in> set (split_on (CHR 0x0A) output).
       \<not> contains ''Number of regular files transferred:'' line) \<longrightarrow>
      extract_transferred output = 0) \<and>
   (\<forall>line rest n.
      scan_transferred (line # rest) n =
        (if contains ''Number of regular files transferred:'' line
         then (case parse_transferred line of
                 Inr v \<Rightarrow> scan_transferred rest v
               | Inl e \<Rightarrow> scan_transferred rest n)
         else scan_transferred rest n))"
proof -
  have a: "extract_transferred output =
     (if parsed_counts output = [] then 0 else last (parsed_counts output))"
    by (simp add: extract_transferred_def parsed_counts_def scan_transferred_spec Let_def)
  have b: "parsed_counts output = []"
    if "\<forall>line \<in> set (split_on (CHR 0x0A) output).
          \<not> contains ''Number of regular files transferred:'' line"
  proof -
    from that have "filter (contains ''Number of regular files transferred:'')
        (split_on (CHR 0x0A) output) = []"
      by (simp add: filter_empty_conv)
    then show ?thesis by (simp add: parsed_counts_def List.map_filter_simps)
  qed
  from a b show ?thesis by (simp del: contains.simps)
qed

theorem transferred_count_last_parsed_witness:
  "parsed_counts summary_output = [5, 7] \<and> extract_transferred summary_output = 7 \<and>
   list_all (\<lambda>line. \<not> contains ''Number of regular files transferred:'' line)
     (split_on (CHR 0x0A) ''a.txt'') \<and>
   extract_transferred ''a.txt'' = 0 \<and>
   contains ''Number of regular files transferred:'' ''Number of regular files transferred: 1,234'' \<and>
   parse_transferred ''Number of regular files transferred: 1,234'' =
     Inl (ValueError ''invalid literal for int() with base 10'') \<and>
   scan_transferred [''Number of regular files transferred: 1,234''] 7 = 7"
proof -
  have n: "\<forall>line \<in> set (split_on (CHR 0x0A) ''a.txt'').
       \<not> contains ''Number of regular files transferred:'' line"
    by code_simp
  have c: "contains ''Number of regular files transferred:''
      ''Number of regular files transferred: 1,234''"
    by code_simp
  have p: "parse_transferred ''Number of regular files transferred: 1,234'' =
     Inl (ValueError ''invalid literal for int() with base 10'')"
    by code_simp
  from transferred_count_last_parsed [of summary_output] summary_counts
  have s: "extract_transferred summary_output = 7" by simp
  from transferred_count_last_parsed [of "''a.txt''"] n
  have z: "extract_transferred ''a.txt'' = 0" by blast
  from transferred_count_last_parsed [of summary_output] c p
  have k: "scan_transferred [''Number of regular files transferred: 1,234''] 7 = 7"
    by (simp del: contains.simps)
  from summary_counts s n z c p k show ?thesis by (simp only: list_all_iff)
qed

end
